theory Spec2Isabelle
  imports Main "HOL-Library.Word" "HOL-Library.Sublist" "HOL-Library.List_Lexorder" "HOL-Library.Product_Lexorder"
begin

section \<open>JavaScript strings\<close>

text \<open>
  A JavaScript string is a sequence of 16-bit code units. Every character the
  application's tables and regular expressions name lies in the Basic
  Multilingual Plane, so one character of the source is one code unit here.
\<close>

type_synonym codeunit = "16 word"
type_synonym jsstring = "codeunit list"

text \<open>Basic Latin literals are written as Isabelle strings and converted.\<close>

definition ascii :: "string \<Rightarrow> jsstring" where
  "ascii s = map (\<lambda>c. of_nat (of_char c)) s"

text \<open>
  \<^verbatim>\<open>text.replace(/[...]/g, '')\<close> and \<^verbatim>\<open>text.replace(/[...]/g, 'x')\<close> for a character
  class and a replacement of one code unit: every code unit of the class is
  dropped, respectively replaced.
\<close>

definition removeClass :: "(codeunit \<Rightarrow> bool) \<Rightarrow> jsstring \<Rightarrow> jsstring" where
  "removeClass cls s = filter (\<lambda>c. \<not> cls c) s"

definition replaceClass :: "(codeunit \<Rightarrow> bool) \<Rightarrow> codeunit \<Rightarrow> jsstring \<Rightarrow> jsstring" where
  "replaceClass cls r s = map (\<lambda>c. if cls c then r else c) s"

section \<open>Normalization (App.tsx)\<close>

text \<open>The character class of \<^verbatim>\<open>ARABIC_DIACRITICS\<close>: code units 064B to 065F, and 0670.\<close>

definition ARABIC_DIACRITICS :: "codeunit \<Rightarrow> bool" where
  "ARABIC_DIACRITICS c \<longleftrightarrow> (0x064B \<le> c \<and> c \<le> 0x065F) \<or> c = 0x0670"

text \<open>
  The four letter classes of \<^verbatim>\<open>normalizeArabic\<close>: Alef with hamza above (0623),
  with hamza below (0625), with madda (0622), Alef wasla (0671); Alef maqsura
  (0649), Yaa with hamza (0626); Taa marbuta (0629); Waw with hamza (0624),
  Hamza (0621).
\<close>

definition alefVariants :: "codeunit \<Rightarrow> bool" where
  "alefVariants c \<longleftrightarrow> c = 0x0623 \<or> c = 0x0625 \<or> c = 0x0622 \<or> c = 0x0671"

definition yaaVariants :: "codeunit \<Rightarrow> bool" where
  "yaaVariants c \<longleftrightarrow> c = 0x0649 \<or> c = 0x0626"

definition taaMarbuta :: "codeunit \<Rightarrow> bool" where
  "taaMarbuta c \<longleftrightarrow> c = 0x0629"

definition hamzaForms :: "codeunit \<Rightarrow> bool" where
  "hamzaForms c \<longleftrightarrow> c = 0x0624 \<or> c = 0x0621"

text \<open>
  \<^verbatim>\<open>function normalizeArabic(text)\<close>: five replacements in sequence; the
  replacement letters are Alef (0627), Yaa (064A) and Haa (0647).
\<close>

definition normalizeArabic :: "jsstring \<Rightarrow> jsstring" where
  "normalizeArabic text =
     removeClass hamzaForms
       (replaceClass taaMarbuta 0x0647
         (replaceClass yaaVariants 0x064A
           (replaceClass alefVariants 0x0627
             (removeClass ARABIC_DIACRITICS text))))"

section \<open>Transliteration (App.tsx)\<close>

text \<open>
  \<^verbatim>\<open>const ROMAN_TO_ARABIC: Record<string, string>\<close>, as the list of its entries in
  the order of the object literal, which is the order \<^verbatim>\<open>Object.keys\<close> returns them
  in (no key is an array index, no key is written twice).
\<close>

definition ROMAN_TO_ARABIC :: "(jsstring \<times> jsstring) list" where
  "ROMAN_TO_ARABIC =
    [(ascii ''ahlulbayt'', [0x0627, 0x0647, 0x0644, 0x0020, 0x0627, 0x0644, 0x0628, 0x064A, 0x062A]),
     (ascii ''ahlul'', [0x0627, 0x0647, 0x0644]),
     (ascii ''allah'', [0x0627, 0x0644, 0x0644, 0x0647]),
     (ascii ''muhammad'', [0x0645, 0x062D, 0x0645, 0x062F]),
     (ascii ''mohammad'', [0x0645, 0x062D, 0x0645, 0x062F]),
     (ascii ''hussein'', [0x062D, 0x0633, 0x064A, 0x0646]),
     (ascii ''husain'', [0x062D, 0x0633, 0x064A, 0x0646]),
     (ascii ''hasan'', [0x062D, 0x0633, 0x0646]),
     (ascii ''hadith'', [0x062D, 0x062F, 0x064A, 0x062B]),
     (ascii ''quran'', [0x0642, 0x0631, 0x0627, 0x0646]),
     (ascii ''rasul'', [0x0631, 0x0633, 0x0648, 0x0644]),
     (ascii ''salat'', [0x0635, 0x0644, 0x0627, 0x0629]),
     (ascii ''zakat'', [0x0632, 0x0643, 0x0627, 0x0629]),
     (ascii ''sawm'', [0x0635, 0x0648, 0x0645]),
     (ascii ''iman'', [0x0627, 0x064A, 0x0645, 0x0627, 0x0646]),
     (ascii ''islam'', [0x0627, 0x0633, 0x0644, 0x0627, 0x0645]),
     (ascii ''muslim'', [0x0645, 0x0633, 0x0644, 0x0645]),
     (ascii ''deen'', [0x062F, 0x064A, 0x0646]),
     (ascii ''kitab'', [0x0643, 0x062A, 0x0627, 0x0628]),
     (ascii ''rabb'', [0x0631, 0x0628]),
     (ascii ''jannah'', [0x062C, 0x0646, 0x0647]),
     (ascii ''jahannam'', [0x062C, 0x0647, 0x0646, 0x0645]),
     (ascii ''shaytan'', [0x0634, 0x064A, 0x0637, 0x0627, 0x0646]),
     (ascii ''malaika'', [0x0645, 0x0644, 0x0627, 0x0626, 0x0643, 0x0647]),
     (ascii ''sahabah'', [0x0635, 0x062D, 0x0627, 0x0628, 0x0647]),
     (ascii ''sunnah'', [0x0633, 0x0646, 0x0647]),
     (ascii ''fatwa'', [0x0641, 0x062A, 0x0648, 0x0649]),
     (ascii ''fiqh'', [0x0641, 0x0642, 0x0647]),
     (ascii ''masjid'', [0x0645, 0x0633, 0x062C, 0x062F]),
     (ascii ''kabah'', [0x0643, 0x0639, 0x0628, 0x0647]),
     (ascii ''makkah'', [0x0645, 0x0643, 0x0647]),
     (ascii ''madinah'', [0x0645, 0x062F, 0x064A, 0x0646, 0x0647]),
     (ascii ''imam'', [0x0627, 0x0645, 0x0627, 0x0645]),
     (ascii ''nabi'', [0x0646, 0x0628, 0x064A]),
     (ascii ''hajj'', [0x062D, 0x062C]),
     (ascii ''bayt'', [0x0628, 0x064A, 0x062A]),
     (ascii ''ilm'', [0x0639, 0x0644, 0x0645]),
     (ascii ''aql'', [0x0639, 0x0642, 0x0644]),
     (ascii ''nafs'', [0x0646, 0x0641, 0x0633]),
     (ascii ''ruh'', [0x0631, 0x0648, 0x062D]),
     (ascii ''qalb'', [0x0642, 0x0644, 0x0628]),
     (ascii ''ali'', [0x0639, 0x0644, 0x064A]),
     (ascii ''din'', [0x062F, 0x064A, 0x0646]),
     (ascii ''ahl'', [0x0627, 0x0647, 0x0644]),
     (ascii ''th'', [0x062B]),
     (ascii ''kh'', [0x062E]),
     (ascii ''dh'', [0x0630]),
     (ascii ''sh'', [0x0634]),
     (ascii ''gh'', [0x063A]),
     (ascii ''aa'', [0x0627]),
     (ascii ''ee'', [0x064A]),
     (ascii ''ii'', [0x064A]),
     (ascii ''oo'', [0x0648]),
     (ascii ''uu'', [0x0648]),
     (ascii ''al'', [0x0627, 0x0644]),
     (ascii ''h2'', [0x0647]),
     (ascii ''a'', [0x0627]),
     (ascii ''b'', [0x0628]),
     (ascii ''t'', [0x062A]),
     (ascii ''j'', [0x062C]),
     (ascii ''h'', [0x062D]),
     (ascii ''d'', [0x062F]),
     (ascii ''r'', [0x0631]),
     (ascii ''z'', [0x0632]),
     (ascii ''s'', [0x0633]),
     (ascii ''S'', [0x0635]),
     (ascii ''D'', [0x0636]),
     (ascii ''T'', [0x0637]),
     (ascii ''Z'', [0x0638]),
     ([0x0027], [0x0639]),
     (ascii ''f'', [0x0641]),
     (ascii ''q'', [0x0642]),
     (ascii ''k'', [0x0643]),
     (ascii ''l'', [0x0644]),
     (ascii ''m'', [0x0645]),
     (ascii ''n'', [0x0646]),
     (ascii ''w'', [0x0648]),
     (ascii ''y'', [0x064A]),
     (ascii ''i'', [0x064A]),
     (ascii ''u'', [0x0648]),
     (ascii ''o'', [0x0648]),
     (ascii ''e'', [0x064A])]"

text \<open>
  \<^verbatim>\<open>new RegExp(key, 'gi')\<close> for a key without regular-expression metacharacters
  (every key of the table is letters, a digit or an apostrophe): the pattern
  matches the key's code units one by one, each compared after the
  case-insensitive canonicalization (upper-casing; a code unit outside Basic
  Latin never canonicalizes into it).
\<close>

definition canonicalize :: "codeunit \<Rightarrow> codeunit" where
  "canonicalize c = (if 0x61 \<le> c \<and> c \<le> 0x7A then c - 0x20 else c)"

fun matchesAt :: "jsstring \<Rightarrow> jsstring \<Rightarrow> bool" where
  "matchesAt [] t = True"
| "matchesAt (k # ks) [] = False"
| "matchesAt (k # ks) (c # cs) = (canonicalize k = canonicalize c \<and> matchesAt ks cs)"

text \<open>
  \<^verbatim>\<open>result.replace(regex, replacement)\<close> with the global flag: the text is scanned
  from the left, every match is replaced and the scan resumes after it. The
  empty pattern matches before every code unit and at the end. (No value of
  the table contains a dollar sign, so the replacement is inserted literally.)
\<close>

function replaceAllCI :: "jsstring \<Rightarrow> jsstring \<Rightarrow> jsstring \<Rightarrow> jsstring" where
  "replaceAllCI [] rep t = rep @ concat (map (\<lambda>c. c # rep) t)"
| "replaceAllCI (k # ks) rep [] = []"
| "replaceAllCI (k # ks) rep (c # cs) =
     (if matchesAt (k # ks) (c # cs)
      then rep @ replaceAllCI (k # ks) rep (drop (length (k # ks)) (c # cs))
      else c # replaceAllCI (k # ks) rep cs)"
  by pat_completeness auto
termination
  by (relation "measure (\<lambda>(k, rep, t). length t)") auto

text \<open>
  \<^verbatim>\<open>ROMAN_TO_ARABIC[key]\<close>; a key that is not in the table reads \<^verbatim>\<open>undefined\<close>, which
  \<^verbatim>\<open>replace\<close> inserts as the text "undefined".
\<close>

definition lookupKey :: "jsstring \<Rightarrow> jsstring" where
  "lookupKey key =
     (case map_of ROMAN_TO_ARABIC key of Some v \<Rightarrow> v | None \<Rightarrow> ascii ''undefined'')"

text \<open>
  \<^verbatim>\<open>Object.keys(ROMAN_TO_ARABIC).sort((a, b) => b.length - a.length)\<close>. The sort of
  JavaScript arrays is stable, as \<^const>\<open>sort_key\<close> is.
\<close>

definition sortedKeys :: "jsstring list" where
  "sortedKeys = sort_key (\<lambda>k. - int (length k)) (map fst ROMAN_TO_ARABIC)"

text \<open>
  \<^verbatim>\<open>function romanToArabic(text)\<close>: the text is lowered, then one global
  replacement is made per key, in sorted order. \<^verbatim>\<open>String.prototype.toLowerCase\<close>
  is the platform's (it lowers the cased letters of every script, some into
  more than one code unit) and is taken as the parameter \<open>toLowerCase\<close>.
\<close>

definition romanToArabic :: "(jsstring \<Rightarrow> jsstring) \<Rightarrow> jsstring \<Rightarrow> jsstring" where
  "romanToArabic toLowerCase text =
     foldl (\<lambda>result key. replaceAllCI key (lookupKey key) result) (toLowerCase text) sortedKeys"

section \<open>String primitives used by the search\<close>

text \<open>
  \<^verbatim>\<open>String.prototype.trim\<close> removes the white space and line terminators of
  ECMAScript from both ends.
\<close>

definition isWhiteSpace :: "codeunit \<Rightarrow> bool" where
  "isWhiteSpace c \<longleftrightarrow>
     c \<in> {0x0009, 0x000A, 0x000B, 0x000C, 0x000D, 0x0020, 0x00A0, 0x1680,
          0x2028, 0x2029, 0x202F, 0x205F, 0x3000, 0xFEFF}
     \<or> (0x2000 \<le> c \<and> c \<le> 0x200A)"

definition trim :: "jsstring \<Rightarrow> jsstring" where
  "trim s = rev (dropWhile isWhiteSpace (rev (dropWhile isWhiteSpace s)))"

text \<open>
  \<^verbatim>\<open>text.indexOf(searchString, position)\<close>: the least index from \<open>position\<close> on
  (clamped to the length) at which \<open>searchString\<close> occurs; \<open>None\<close> is the
  source's \<open>-1\<close>. The empty string occurs at every index up to the length.
\<close>

fun indexOfAux :: "jsstring \<Rightarrow> jsstring \<Rightarrow> nat \<Rightarrow> nat option" where
  "indexOfAux q [] k = (if q = [] then Some k else None)"
| "indexOfAux q (c # cs) k =
     (if prefix q (c # cs) then Some k else indexOfAux q cs (Suc k))"

definition indexOf :: "jsstring \<Rightarrow> jsstring \<Rightarrow> nat \<Rightarrow> nat option" where
  "indexOf t q position =
     (let start = min position (length t) in indexOfAux q (drop start t) start)"

text \<open>
  \<^verbatim>\<open>text.substring(start, end)\<close> for non-negative arguments: both are clamped to
  the length and swapped when \<open>start\<close> exceeds \<open>end\<close>.
\<close>

definition substring :: "jsstring \<Rightarrow> nat \<Rightarrow> nat \<Rightarrow> jsstring" where
  "substring t start end =
     (let a = min start (length t); b = min end (length t);
          lo = min a b; hi = max a b
      in take (hi - lo) (drop lo t))"

text \<open>\<^verbatim>\<open>parts.join(separator)\<close> on the string forms of the elements.\<close>

fun join :: "jsstring \<Rightarrow> jsstring list \<Rightarrow> jsstring" where
  "join sep [] = []"
| "join sep [x] = x"
| "join sep (x # y # ys) = x @ sep @ join sep (y # ys)"

text \<open>
  \<^verbatim>\<open>JSON.parse\<close> is the platform's; the search functions take it as a parameter
  \<open>parse\<close>, whose result says what they go on to ask of the parsed value:
  the text is no JSON document (\<^verbatim>\<open>JSON.parse\<close> throws), it is an array (given by
  the string forms of its elements, as \<^verbatim>\<open>join\<close> renders them), or it is another
  value (given by its string form, \<^verbatim>\<open>String(value)\<close>).
\<close>

datatype parsed = SyntaxError | ParsedArray "jsstring list" | ParsedOther jsstring

section \<open>Data model (App.tsx)\<close>

text \<open>
  The interfaces \<^verbatim>\<open>Book\<close>, \<^verbatim>\<open>VolumeInfo\<close>, \<^verbatim>\<open>Page\<close> and \<^verbatim>\<open>SearchResult\<close>. Numbers
  of volumes and pages are integers. \<^verbatim>\<open>Math.max\<close> of no volume numbers is
  \<^verbatim>\<open>-Infinity\<close>, so a book's \<^verbatim>\<open>volumes\<close> field is an integer or that. The
  optional \<^verbatim>\<open>id\<close> of pages and volumes is never written by the code and is left
  out.
\<close>

datatype jsnumber = NegInfinity | Num int

fun jsmax :: "jsnumber \<Rightarrow> jsnumber \<Rightarrow> jsnumber" where
  "jsmax NegInfinity y = y"
| "jsmax x NegInfinity = x"
| "jsmax (Num a) (Num b) = Num (max a b)"

record Book =
  book_id :: jsstring
  book_title :: jsstring
  book_author :: "jsstring option"
  book_volumes :: jsnumber
  book_importedAt :: "int option"

record VolumeInfo =
  vol_bookId :: jsstring
  vol_volume :: int
  vol_totalPages :: int
  vol_importedAt :: "int option"

record Page =
  pg_bookId :: jsstring
  pg_volume :: int
  pg_page :: int
  pg_text :: jsstring

record SearchResult =
  res_bookId :: jsstring
  res_bookTitle :: jsstring
  res_volume :: int
  res_page :: int
  res_snippet :: jsstring
  res_matchIndex :: nat

datatype SearchMode = Exact | Root
datatype InputMode = Arabic | Roman
datatype SectFilter = AllSects | Shia | Sunni

text \<open>A page is keyed by \<^verbatim>\<open>(bookId, volume, page)\<close>; a result names the page it is for.\<close>

definition pageKey :: "Page \<Rightarrow> jsstring \<times> int \<times> int" where
  "pageKey pg = (pg_bookId pg, pg_volume pg, pg_page pg)"

definition resultKey :: "SearchResult \<Rightarrow> jsstring \<times> int \<times> int" where
  "resultKey r = (res_bookId r, res_volume r, res_page r)"

section \<open>Search on the interactive thread (App.tsx)\<close>

definition SUNNI_BOOK_IDS :: "jsstring set" where
  "SUNNI_BOOK_IDS = set (map ascii
     [''59624'', ''59622'', ''109591'', ''17077'', ''02384'', ''00779'', ''25568'',
      ''66642'', ''01484'', ''124740''])"

text \<open>\<^verbatim>\<open>function getBookSect(bookId)\<close>; its result is \<^verbatim>\<open>'shia'\<close> or \<^verbatim>\<open>'sunni'\<close>.\<close>

definition getBookSect :: "jsstring \<Rightarrow> SectFilter" where
  "getBookSect bookId = (if bookId \<in> SUNNI_BOOK_IDS then Sunni else Shia)"

text \<open>The predicate of \<^verbatim>\<open>pagesStore.filter(...)\<close> in \<^verbatim>\<open>performSearch\<close>.\<close>

definition pageSelected :: "SectFilter \<Rightarrow> jsstring set \<Rightarrow> Page \<Rightarrow> bool" where
  "pageSelected searchSectFilter searchSelectedBooks pg =
     (if searchSectFilter \<noteq> AllSects \<and> getBookSect (pg_bookId pg) \<noteq> searchSectFilter
      then False
      else if searchSelectedBooks \<noteq> {} \<and> pg_bookId pg \<notin> searchSelectedBooks
      then False
      else True)"

text \<open>
  The text a page is searched in: the paragraphs joined with spaces when the
  stored text parses as an array, the stored text as it is otherwise.
\<close>

definition textToSearch :: "(jsstring \<Rightarrow> parsed) \<Rightarrow> Page \<Rightarrow> jsstring" where
  "textToSearch parse pg =
     (case parse (pg_text pg) of
        ParsedArray parts \<Rightarrow> join (ascii '' '') parts
      | _ \<Rightarrow> pg_text pg)"

text \<open>\<^verbatim>\<open>book?.title || page.bookId\<close> for the first book of the list with the page's id.\<close>

definition bookTitleFor :: "Book list \<Rightarrow> jsstring \<Rightarrow> jsstring" where
  "bookTitleFor books bookId =
     (case find (\<lambda>b. book_id b = bookId) books of
        Some b \<Rightarrow> (if book_title b \<noteq> [] then book_title b else bookId)
      | None \<Rightarrow> bookId)"

text \<open>
  The body of the \<^verbatim>\<open>while\<close> loop builds one result from the index of the match
  (an index into the text that was matched) and the number of matches so far:
  the window is cut out of the text before normalization. (\<open>searchIndex - 50\<close>
  on natural numbers stops at 0, which is \<^verbatim>\<open>Math.max(0, searchIndex - 50)\<close>.)
\<close>

definition buildResult ::
  "Book list \<Rightarrow> Page \<Rightarrow> jsstring \<Rightarrow> jsstring \<Rightarrow> nat \<Rightarrow> nat \<Rightarrow> SearchResult" where
  "buildResult books pg original normalizedSearchTerm searchIndex matchCount =
     (let start = max 0 (searchIndex - 50);
          end = min (length original) (searchIndex + length normalizedSearchTerm + 50);
          snippet = substring original start end;
          snippet = (if start > 0 then ascii ''...'' @ snippet else snippet);
          snippet = (if end < length original then snippet @ ascii ''...'' else snippet)
      in \<lparr> res_bookId = pg_bookId pg,
           res_bookTitle = bookTitleFor books (pg_bookId pg),
           res_volume = pg_volume pg,
           res_page = pg_page pg,
           res_snippet = snippet,
           res_matchIndex = matchCount \<rparr>)"

text \<open>
  The \<^verbatim>\<open>while\<close> loop: search from \<open>searchIndex\<close>, record the match, move past it,
  stop at the third match. It gives the index of each match with its number.
\<close>

function matchLoop :: "jsstring \<Rightarrow> jsstring \<Rightarrow> nat \<Rightarrow> nat \<Rightarrow> (nat \<times> nat) list" where
  "matchLoop textForMatching normalizedSearchTerm searchIndex matchCount =
     (case indexOf textForMatching normalizedSearchTerm searchIndex of
        None \<Rightarrow> []
      | Some found \<Rightarrow>
          (found, matchCount) #
          (if matchCount + 1 \<ge> 3 then []
           else matchLoop textForMatching normalizedSearchTerm
                  (found + length normalizedSearchTerm) (matchCount + 1)))"
  by pat_completeness auto
termination
  by (relation "measure (\<lambda>(t, q, i, n). 3 - n)") auto

declare matchLoop.simps [simp del]

text \<open>
  The text the term is looked for in: the normalized text in root mode, the
  text as it is in exact mode.
\<close>

definition textForMatching :: "(jsstring \<Rightarrow> parsed) \<Rightarrow> SearchMode \<Rightarrow> Page \<Rightarrow> jsstring" where
  "textForMatching parse searchMode pg =
     (if searchMode = Root then normalizeArabic (textToSearch parse pg)
      else textToSearch parse pg)"

text \<open>The results of one page: the body of \<^verbatim>\<open>for (const page of filteredPages)\<close>.\<close>

definition searchPage ::
  "(jsstring \<Rightarrow> parsed) \<Rightarrow> SearchMode \<Rightarrow> Book list \<Rightarrow> jsstring \<Rightarrow> Page \<Rightarrow> SearchResult list" where
  "searchPage parse searchMode books normalizedSearchTerm pg =
     map (\<lambda>(searchIndex, matchCount).
            buildResult books pg (textToSearch parse pg) normalizedSearchTerm
              searchIndex matchCount)
         (matchLoop (textForMatching parse searchMode pg) normalizedSearchTerm 0 0)"

text \<open>The search term: the query trimmed, and transliterated in Roman input mode.\<close>

definition searchTermOf :: "(jsstring \<Rightarrow> jsstring) \<Rightarrow> InputMode \<Rightarrow> jsstring \<Rightarrow> jsstring" where
  "searchTermOf toLowerCase inputMode query =
     (let searchTerm = trim query
      in if inputMode = Roman then romanToArabic toLowerCase searchTerm else searchTerm)"

text \<open>The term that is matched: normalized in root mode, verbatim in exact mode.\<close>

definition normalizedSearchTermOf ::
  "(jsstring \<Rightarrow> jsstring) \<Rightarrow> InputMode \<Rightarrow> SearchMode \<Rightarrow> jsstring \<Rightarrow> jsstring" where
  "normalizedSearchTermOf toLowerCase inputMode searchMode query =
     (if searchMode = Root then normalizeArabic (searchTermOf toLowerCase inputMode query)
      else searchTermOf toLowerCase inputMode query)"

text \<open>
  \<^verbatim>\<open>function performSearch(query)\<close> with the state it reads as arguments: the
  input mode, the match mode, the two filters, and the mirror's \<^verbatim>\<open>booksStore\<close> and
  \<^verbatim>\<open>pagesStore\<close> (here \<open>books\<close> and \<open>pages\<close>); \<open>parse\<close> and \<open>toLowerCase\<close> are
  the platform's \<^verbatim>\<open>JSON.parse\<close> and \<^verbatim>\<open>String.prototype.toLowerCase\<close>. \<open>None\<close> is the
  early return on a query that is empty or white space: nothing is searched
  and no result list is set.
\<close>

definition performSearch ::
  "(jsstring \<Rightarrow> parsed) \<Rightarrow> (jsstring \<Rightarrow> jsstring) \<Rightarrow> InputMode \<Rightarrow> SearchMode \<Rightarrow> SectFilter \<Rightarrow>
   jsstring set \<Rightarrow> Book list \<Rightarrow> Page list \<Rightarrow> jsstring \<Rightarrow> SearchResult list option" where
  "performSearch parse toLowerCase inputMode searchMode searchSectFilter searchSelectedBooks
      books pages query =
     (if trim query = [] then None
      else
        let normalizedSearchTerm = normalizedSearchTermOf toLowerCase inputMode searchMode query;
            filteredPages = filter (pageSelected searchSectFilter searchSelectedBooks) pages
        in Some (concat (map (searchPage parse searchMode books normalizedSearchTerm)
                   filteredPages)))"

section \<open>Offloaded search (search.worker.ts, useSearchWorker.ts)\<close>

text \<open>
  \<^verbatim>\<open>const normalizeArabic\<close> of the worker: the marks 064B to 065F and 0670 are
  dropped, the Alef forms become Alef, Waw with hamza (0624) becomes Waw (0648),
  Yaa with hamza (0626) becomes Yaa, Taa marbuta (0629) becomes Haa, Alef maqsura
  (0649) becomes Yaa, and the Tatweel (0640) is dropped.
\<close>

definition normalizeArabic_worker :: "jsstring \<Rightarrow> jsstring" where
  "normalizeArabic_worker text =
     removeClass (\<lambda>c. c = 0x0640)
       (replaceClass (\<lambda>c. c = 0x0649) 0x064A
         (replaceClass (\<lambda>c. c = 0x0629) 0x0647
           (replaceClass (\<lambda>c. c = 0x0626) 0x064A
             (replaceClass (\<lambda>c. c = 0x0624) 0x0648
               (replaceClass (\<lambda>c. c = 0x0623 \<or> c = 0x0625 \<or> c = 0x0622 \<or> c = 0x0671) 0x0627
                 (removeClass (\<lambda>c. (0x064B \<le> c \<and> c \<le> 0x065F) \<or> c = 0x0670) text))))))"

text \<open>
  \<^verbatim>\<open>const extractSnippet = (text, matchIndex, length = 100)\<close>. The half length
  \<^verbatim>\<open>length / 2\<close> need not be whole, so the bounds are computed doubled:
  \<open>start2\<close> and \<open>end2\<close> are twice the source's \<^verbatim>\<open>start\<close> and \<^verbatim>\<open>end\<close>, the
  comparisons are made on them, and \<^verbatim>\<open>substring\<close> truncates the bounds to whole
  numbers.
\<close>

definition extractSnippet :: "jsstring \<Rightarrow> nat \<Rightarrow> nat \<Rightarrow> jsstring" where
  "extractSnippet text matchIndex len =
     (let start2 = max 0 (2 * int matchIndex - int len);
          end2 = min (2 * int (length text)) (2 * int matchIndex + int len);
          snippet = substring text (nat (start2 div 2)) (nat (end2 div 2));
          snippet = (if start2 > 0 then ascii ''...'' @ snippet else snippet);
          snippet = (if end2 < 2 * int (length text) then snippet @ ascii ''...'' else snippet)
      in snippet)"

text \<open>\<^verbatim>\<open>text.replace(pattern, replacement)\<close> for a string pattern: the first occurrence.\<close>

fun replaceFirst :: "jsstring \<Rightarrow> jsstring \<Rightarrow> jsstring \<Rightarrow> jsstring" where
  "replaceFirst pat rep [] = (if pat = [] then rep else [])"
| "replaceFirst pat rep (c # cs) =
     (if prefix pat (c # cs) then rep @ drop (length pat) (c # cs)
      else c # replaceFirst pat rep cs)"

text \<open>
  The books as the search receives them (\<^verbatim>\<open>{ id: string; title: string }\<close>), and
  \<^verbatim>\<open>new Map(books.map(b => [b.id, b.title])).get(key)\<close>: of two books with one id
  the later one's title is kept.
\<close>

record BookTitle =
  bt_id :: jsstring
  bt_title :: jsstring

definition bookMapGet :: "BookTitle list \<Rightarrow> jsstring \<Rightarrow> jsstring option" where
  "bookMapGet books key = map_of (rev (map (\<lambda>b. (bt_id b, bt_title b)) books)) key"

text \<open>
  \<^verbatim>\<open>const performSearch\<close> of the worker. A page whose text does not parse is
  skipped; otherwise the first occurrence of the query gives one result, whose
  \<^verbatim>\<open>matchIndex\<close> is the index of the occurrence.
\<close>

definition workerPage ::
  "SearchMode \<Rightarrow> BookTitle list \<Rightarrow> jsstring \<Rightarrow> Page \<Rightarrow> jsstring \<Rightarrow> SearchResult list" where
  "workerPage mode books normalizedQuery page fullText =
     (let searchText = (if mode = Root then normalizeArabic_worker fullText else fullText)
      in case indexOf searchText normalizedQuery 0 of
           None \<Rightarrow> []
         | Some matchIndex \<Rightarrow>
             [\<lparr> res_bookId = pg_bookId page,
                res_bookTitle =
                  (case bookMapGet books (replaceFirst (ascii ''_en'') [] (pg_bookId page)) of
                     Some title \<Rightarrow> (if title \<noteq> [] then title else ascii ''Unknown'')
                   | None \<Rightarrow> ascii ''Unknown''),
                res_volume = pg_volume page,
                res_page = pg_page page,
                res_snippet = extractSnippet fullText matchIndex 150,
                res_matchIndex = matchIndex \<rparr>])"

definition performSearch_worker ::
  "(jsstring \<Rightarrow> parsed) \<Rightarrow> jsstring \<Rightarrow> SearchMode \<Rightarrow> Page list \<Rightarrow> BookTitle list \<Rightarrow>
   SearchResult list" where
  "performSearch_worker parse query mode pages books =
     (let normalizedQuery = (if mode = Root then normalizeArabic_worker query else query)
      in concat (map (\<lambda>page.
           case parse (pg_text page) of
             SyntaxError \<Rightarrow> []
           | ParsedArray textParts \<Rightarrow>
               workerPage mode books normalizedQuery page (join (ascii '' '') textParts)
           | ParsedOther str \<Rightarrow> workerPage mode books normalizedQuery page str) pages))"

text \<open>
  \<^verbatim>\<open>function performSearchMainThread\<close>, the fallback of the hook, with its own
  \<^verbatim>\<open>normalizeArabic\<close> and its snippet cut in place (75 before the match and 75
  after its start; \<open>matchIndex - 75\<close> on natural numbers stops at 0, which is
  \<^verbatim>\<open>Math.max(0, matchIndex - 75)\<close>).
\<close>

definition normalizeArabic_mainThread :: "jsstring \<Rightarrow> jsstring" where
  "normalizeArabic_mainThread text =
     removeClass (\<lambda>c. c = 0x0640)
       (replaceClass (\<lambda>c. c = 0x0649) 0x064A
         (replaceClass (\<lambda>c. c = 0x0629) 0x0647
           (replaceClass (\<lambda>c. c = 0x0626) 0x064A
             (replaceClass (\<lambda>c. c = 0x0624) 0x0648
               (replaceClass (\<lambda>c. c = 0x0623 \<or> c = 0x0625 \<or> c = 0x0622 \<or> c = 0x0671) 0x0627
                 (removeClass (\<lambda>c. (0x064B \<le> c \<and> c \<le> 0x065F) \<or> c = 0x0670) text))))))"

definition mainThreadPage ::
  "SearchMode \<Rightarrow> BookTitle list \<Rightarrow> jsstring \<Rightarrow> Page \<Rightarrow> jsstring \<Rightarrow> SearchResult list" where
  "mainThreadPage mode books normalizedQuery page fullText =
     (let searchText = (if mode = Root then normalizeArabic_mainThread fullText else fullText)
      in case indexOf searchText normalizedQuery 0 of
           None \<Rightarrow> []
         | Some matchIndex \<Rightarrow>
             (let start = max 0 (matchIndex - 75);
                  end = min (length fullText) (matchIndex + 75);
                  snippet = substring fullText start end;
                  snippet = (if start > 0 then ascii ''...'' @ snippet else snippet);
                  snippet = (if end < length fullText then snippet @ ascii ''...'' else snippet)
              in [\<lparr> res_bookId = pg_bookId page,
                     res_bookTitle =
                       (case bookMapGet books (replaceFirst (ascii ''_en'') [] (pg_bookId page)) of
                          Some title \<Rightarrow> (if title \<noteq> [] then title else ascii ''Unknown'')
                        | None \<Rightarrow> ascii ''Unknown''),
                     res_volume = pg_volume page,
                     res_page = pg_page page,
                     res_snippet = snippet,
                     res_matchIndex = matchIndex \<rparr>]))"

definition performSearchMainThread ::
  "(jsstring \<Rightarrow> parsed) \<Rightarrow> jsstring \<Rightarrow> SearchMode \<Rightarrow> Page list \<Rightarrow> BookTitle list \<Rightarrow>
   SearchResult list" where
  "performSearchMainThread parse query mode pages books =
     (let normalizedQuery = (if mode = Root then normalizeArabic_mainThread query else query)
      in concat (map (\<lambda>page.
           case parse (pg_text page) of
             SyntaxError \<Rightarrow> []
           | ParsedArray textParts \<Rightarrow>
               mainThreadPage mode books normalizedQuery page (join (ascii '' '') textParts)
           | ParsedOther str \<Rightarrow> mainThreadPage mode books normalizedQuery page str) pages))"

section \<open>Search result cache (performance module)\<close>

text \<open>
  \<^verbatim>\<open>const searchCache = new Map<string, CachedSearch>()\<close>: a \<^verbatim>\<open>Map\<close> keeps its
  entries in insertion order, so it is a list of entries with distinct keys.
  \<^verbatim>\<open>set\<close> on a key that is present replaces the value where it stands, on a new
  key it appends; \<^verbatim>\<open>size\<close> is the length; \<^verbatim>\<open>keys().next().value\<close> is the key of the
  first entry. \<^verbatim>\<open>Date.now()\<close> is the argument \<open>now\<close>, in milliseconds.
\<close>

record 'a CachedSearch =
  cs_results :: "'a list"
  cs_timestamp :: int

type_synonym 'a searchCache = "(jsstring \<times> 'a CachedSearch) list"

definition mapGet :: "(jsstring \<times> 'v) list \<Rightarrow> jsstring \<Rightarrow> 'v option" where
  "mapGet m k = map_of m k"

definition mapSet :: "jsstring \<Rightarrow> 'v \<Rightarrow> (jsstring \<times> 'v) list \<Rightarrow> (jsstring \<times> 'v) list" where
  "mapSet k v m =
     (if k \<in> fst ` set m then map (\<lambda>(k', v'). if k' = k then (k', v) else (k', v')) m
      else m @ [(k, v)])"

definition mapDelete :: "jsstring \<Rightarrow> (jsstring \<times> 'v) list \<Rightarrow> (jsstring \<times> 'v) list" where
  "mapDelete k m = filter (\<lambda>(k', v'). k' \<noteq> k) m"

definition CACHE_SIZE :: nat where
  "CACHE_SIZE = 50"

definition CACHE_TTL :: int where
  "CACHE_TTL = 5 * 60 * 1000"

text \<open>
  \<^verbatim>\<open>function getCachedSearchResults(cacheKey)\<close>: the results (\<open>None\<close> is the
  source's \<^verbatim>\<open>null\<close>) and the cache afterwards, from which a stale entry has been
  removed.
\<close>

definition getCachedSearchResults ::
  "jsstring \<Rightarrow> int \<Rightarrow> 'a searchCache \<Rightarrow> 'a list option \<times> 'a searchCache" where
  "getCachedSearchResults cacheKey now searchCache =
     (case mapGet searchCache cacheKey of
        Some cached \<Rightarrow>
          (if now - cs_timestamp cached < CACHE_TTL then (Some (cs_results cached), searchCache)
           else (None, mapDelete cacheKey searchCache))
      | None \<Rightarrow> (None, searchCache))"

text \<open>
  \<^verbatim>\<open>function cacheSearchResults(cacheKey, results)\<close>. The oldest key is deleted
  only \<^verbatim>\<open>if (oldestKey)\<close>, and the empty string is falsy.
\<close>

definition cacheSearchResults ::
  "jsstring \<Rightarrow> 'a list \<Rightarrow> int \<Rightarrow> 'a searchCache \<Rightarrow> 'a searchCache" where
  "cacheSearchResults cacheKey results now searchCache =
     (let evicted =
            (if length searchCache \<ge> CACHE_SIZE
             then (case searchCache of
                     [] \<Rightarrow> searchCache
                   | (oldestKey, oldest) # others \<Rightarrow>
                       (if oldestKey \<noteq> [] then mapDelete oldestKey searchCache
                        else searchCache))
             else searchCache)
      in mapSet cacheKey \<lparr> cs_results = results, cs_timestamp = now \<rparr> evicted)"

text \<open>
  \<^verbatim>\<open>function getSearchCacheKey(query, mode, sectFilter, selectedBooks)\<close>. The set
  of selected books is given by its elements in insertion order; the default
  sort of an array of strings compares them by code units.
\<close>

fun modeString :: "SearchMode \<Rightarrow> jsstring" where
  "modeString Exact = ascii ''exact''"
| "modeString Root = ascii ''root''"

definition getSearchCacheKey ::
  "jsstring \<Rightarrow> SearchMode \<Rightarrow> jsstring \<Rightarrow> jsstring list \<Rightarrow> jsstring" where
  "getSearchCacheKey query mode sectFilter selectedBooks =
     (let booksKey = (if length selectedBooks > 0 then join (ascii '','') (sort selectedBooks)
                      else ascii ''all'')
      in modeString mode @ ascii '':'' @ sectFilter @ ascii '':'' @ booksKey @ ascii '':'' @ query)"

text \<open>A query as the cache sees it, and the key it is cached under.\<close>

record SearchQuery =
  sq_query :: jsstring
  sq_mode :: SearchMode
  sq_sectFilter :: jsstring
  sq_selectedBooks :: "jsstring list"

definition cacheKeyOf :: "SearchQuery \<Rightarrow> jsstring" where
  "cacheKeyOf sq =
     getSearchCacheKey (sq_query sq) (sq_mode sq) (sq_sectFilter sq) (sq_selectedBooks sq)"

text \<open>Caching the results of a list of queries one after the other, each at its time.\<close>

definition cacheAll :: "(SearchQuery \<times> 'a list \<times> int) list \<Rightarrow> 'a searchCache \<Rightarrow> 'a searchCache" where
  "cacheAll entries searchCache =
     foldl (\<lambda>c (sq, results, now). cacheSearchResults (cacheKeyOf sq) results now c)
       searchCache entries"

text \<open>The entry a cached query leaves in the \<^verbatim>\<open>Map\<close>.\<close>

definition entryOf :: "SearchQuery \<times> 'a list \<times> int \<Rightarrow> jsstring \<times> 'a CachedSearch" where
  "entryOf e = (case e of (sq, results, now) \<Rightarrow>
     (cacheKeyOf sq, \<lparr> cs_results = results, cs_timestamp = now \<rparr>))"

section \<open>Persistent store and in-memory mirror (App.tsx)\<close>

text \<open>
  The IndexedDB database \<^verbatim>\<open>hadithHub\<close> has three object stores with in-line keys:
  books by \<^verbatim>\<open>id\<close>, volumes by \<^verbatim>\<open>[bookId, volume]\<close>, pages by
  \<^verbatim>\<open>[bookId, volume, page]\<close>. A store with in-line keys holds at most one record
  per key, and the key is read off the record; it is modelled as the list of
  its records. \<^verbatim>\<open>put\<close> replaces the record with the same key, deleting through a
  key or an index removes the records with that key or index value, and
  \<^verbatim>\<open>getAll\<close> returns the records in the order of their keys. \<open>db_opened\<close> says
  whether the module variable \<^verbatim>\<open>db\<close> holds the open connection.
\<close>

record Database =
  db_opened :: bool
  db_books :: "Book list"
  db_volumes :: "VolumeInfo list"
  db_pages :: "Page list"

definition volumeKey :: "VolumeInfo \<Rightarrow> jsstring \<times> int" where
  "volumeKey v = (vol_bookId v, vol_volume v)"

definition storePut :: "('r \<Rightarrow> 'k) \<Rightarrow> 'r \<Rightarrow> 'r list \<Rightarrow> 'r list" where
  "storePut key r store = filter (\<lambda>x. key x \<noteq> key r) store @ [r]"

definition getAll :: "('r \<Rightarrow> 'k::linorder) \<Rightarrow> 'r list \<Rightarrow> 'r list" where
  "getAll key store = sort_key key store"

text \<open>
  A request to the database can fail (the \<^verbatim>\<open>onerror\<close> handlers reject the
  promise with the error of the request or transaction). Which requests fail is
  the environment's choice, given to the model as a predicate on requests. A
  failed transaction leaves the database as it was.
\<close>

datatype StorageError = StorageError

datatype Request =
    OpenDB
  | GetAllBooks | GetAllVolumes | GetAllPages
  | PutBook Book | PutVolume VolumeInfo | PutPages "Page list"
  | DeletePagesOfVolume jsstring int
  | DeleteBookRecord jsstring | DeleteVolumesOfBook jsstring | DeletePagesOfBook jsstring

type_synonym 'a result = "StorageError + 'a"

text \<open>
  The state the operations work on: the mirror (\<^verbatim>\<open>booksStore\<close>, \<^verbatim>\<open>volumesStore\<close>,
  \<^verbatim>\<open>pagesStore\<close>) and the database.
\<close>

record AppState =
  booksStore :: "Book list"
  volumesStore :: "VolumeInfo list"
  pagesStore :: "Page list"
  idb :: Database

text \<open>
  Sequencing of awaited operations: the next one runs on the state the previous
  one left, unless the previous one failed, in which case the error is passed
  on with the state at the failure.
\<close>

definition andThen ::
  "unit result \<times> 's \<Rightarrow> ('s \<Rightarrow> unit result \<times> 's) \<Rightarrow> unit result \<times> 's" where
  "andThen r f = (case r of (Inl e, s) \<Rightarrow> (Inl e, s) | (Inr u, s) \<Rightarrow> f s)"

text \<open>\<^verbatim>\<open>function initDB()\<close>: the connection is opened once and kept.\<close>

definition initDB :: "(Request \<Rightarrow> bool) \<Rightarrow> AppState \<Rightarrow> unit result \<times> AppState" where
  "initDB fails s =
     (if db_opened (idb s) then (Inr (), s)
      else if fails OpenDB then (Inl StorageError, s)
      else (Inr (), s\<lparr>idb := (idb s)\<lparr>db_opened := True\<rparr>\<rparr>))"

text \<open>One transaction: it fails as a whole or changes the database.\<close>

definition transaction ::
  "(Request \<Rightarrow> bool) \<Rightarrow> Request \<Rightarrow> (Database \<Rightarrow> Database) \<Rightarrow> AppState \<Rightarrow>
   unit result \<times> AppState" where
  "transaction fails request change s =
     (if fails request then (Inl StorageError, s) else (Inr (), s\<lparr>idb := change (idb s)\<rparr>))"

text \<open>\<^verbatim>\<open>saveBookToDB\<close>, \<^verbatim>\<open>saveVolumeToDB\<close>, \<^verbatim>\<open>savePagesToDB\<close> (which does nothing for no pages).\<close>

definition saveBookToDB :: "(Request \<Rightarrow> bool) \<Rightarrow> Book \<Rightarrow> AppState \<Rightarrow> unit result \<times> AppState" where
  "saveBookToDB fails book s =
     andThen (initDB fails s)
       (transaction fails (PutBook book)
          (\<lambda>d. d\<lparr>db_books := storePut book_id book (db_books d)\<rparr>))"

definition saveVolumeToDB ::
  "(Request \<Rightarrow> bool) \<Rightarrow> VolumeInfo \<Rightarrow> AppState \<Rightarrow> unit result \<times> AppState" where
  "saveVolumeToDB fails volume s =
     andThen (initDB fails s)
       (transaction fails (PutVolume volume)
          (\<lambda>d. d\<lparr>db_volumes := storePut volumeKey volume (db_volumes d)\<rparr>))"

definition savePagesToDB ::
  "(Request \<Rightarrow> bool) \<Rightarrow> Page list \<Rightarrow> AppState \<Rightarrow> unit result \<times> AppState" where
  "savePagesToDB fails pages s =
     (if length pages = 0 then (Inr (), s)
      else andThen (initDB fails s)
        (transaction fails (PutPages pages)
           (\<lambda>d. d\<lparr>db_pages := foldl (\<lambda>store page. storePut pageKey page store)
                                  (db_pages d) pages\<rparr>)))"

text \<open>\<^verbatim>\<open>deletePagesFromDB(bookId, volume)\<close>: a cursor over the index \<^verbatim>\<open>bookVolume\<close>.\<close>

definition deletePagesFromDB ::
  "(Request \<Rightarrow> bool) \<Rightarrow> jsstring \<Rightarrow> int \<Rightarrow> AppState \<Rightarrow> unit result \<times> AppState" where
  "deletePagesFromDB fails bookId volume s =
     andThen (initDB fails s)
       (transaction fails (DeletePagesOfVolume bookId volume)
          (\<lambda>d. d\<lparr>db_pages :=
                  filter (\<lambda>pg. \<not> (pg_bookId pg = bookId \<and> pg_volume pg = volume)) (db_pages d)\<rparr>))"

text \<open>
  \<^verbatim>\<open>deleteBookFromDB(bookId)\<close>: three transactions one after the other, on the
  book's key and on the \<^verbatim>\<open>bookId\<close> indexes of volumes and pages.
\<close>

definition deleteBookFromDB ::
  "(Request \<Rightarrow> bool) \<Rightarrow> jsstring \<Rightarrow> AppState \<Rightarrow> unit result \<times> AppState" where
  "deleteBookFromDB fails bookId s =
     andThen (initDB fails s) (\<lambda>s.
     andThen (transaction fails (DeleteBookRecord bookId)
                (\<lambda>d. d\<lparr>db_books := filter (\<lambda>b. book_id b \<noteq> bookId) (db_books d)\<rparr>) s) (\<lambda>s.
     andThen (transaction fails (DeleteVolumesOfBook bookId)
                (\<lambda>d. d\<lparr>db_volumes := filter (\<lambda>v. vol_bookId v \<noteq> bookId) (db_volumes d)\<rparr>) s)
             (transaction fails (DeletePagesOfBook bookId)
                (\<lambda>d. d\<lparr>db_pages := filter (\<lambda>p. pg_bookId p \<noteq> bookId) (db_pages d)\<rparr>))))"

text \<open>
  \<^verbatim>\<open>async function loadFromDB()\<close>. Opening the database is outside the \<^verbatim>\<open>try\<close>
  block; the three reads are inside it, and the \<^verbatim>\<open>catch\<close> logs the error and
  lets the function return.
\<close>

definition loadFromDB :: "(Request \<Rightarrow> bool) \<Rightarrow> AppState \<Rightarrow> unit result \<times> AppState" where
  "loadFromDB fails s =
     andThen (initDB fails s) (\<lambda>s.
       if fails GetAllBooks then (Inr (), s)
       else
         let s = s\<lparr>booksStore := getAll book_id (db_books (idb s))\<rparr>
         in if fails GetAllVolumes then (Inr (), s)
            else
              let s = s\<lparr>volumesStore := getAll volumeKey (db_volumes (idb s))\<rparr>
              in if fails GetAllPages then (Inr (), s)
                 else (Inr (), s\<lparr>pagesStore := getAll pageKey (db_pages (idb s))\<rparr>))"

section \<open>Import and deletion (App.tsx)\<close>

text \<open>
  An archive, as far as the import reads it:

  \<^item> it cannot be read as a ZIP file;

  \<^item> it has no \<^verbatim>\<open>manifest.json\<close>;

  \<^item> its manifest is not JSON (\<^verbatim>\<open>JSON.parse\<close> throws);

  \<^item> its manifest is JSON, but reading \<^verbatim>\<open>manifest.volumes\<close> throws a
    \<^verbatim>\<open>TypeError\<close> at some entry (the entry is \<^verbatim>\<open>null\<close>, or \<^verbatim>\<open>volumes\<close> is not
    a list): the manifest given holds the entries before that one, which the
    loop has gone through when the error is thrown;

  \<^item> it has a manifest of the expected shape;

  in the last two cases with its page files \<^verbatim>\<open>volumes/<volume>/<page>.txt\<close>.
\<close>

record VolumeEntry =
  ve_volume :: int
  ve_totalPages :: int

record Manifest =
  mf_id :: jsstring
  mf_title :: jsstring
  mf_author :: "jsstring option"
  mf_volumes :: "VolumeEntry list"

datatype Archive =
    Unreadable
  | NoManifest
  | ManifestNotJSON
  | MalformedManifest Manifest "int \<Rightarrow> int \<Rightarrow> jsstring option"
  | Archive Manifest "int \<Rightarrow> int \<Rightarrow> jsstring option"

text \<open>The pages read for one volume of the manifest: the page files that exist.\<close>

definition readPages :: "(int \<Rightarrow> int \<Rightarrow> jsstring option) \<Rightarrow> jsstring \<Rightarrow> VolumeEntry \<Rightarrow> Page list" where
  "readPages files bookId volInfo =
     concat (map (\<lambda>i. case files (ve_volume volInfo) i of
                         Some text \<Rightarrow> [\<lparr> pg_bookId = bookId, pg_volume = ve_volume volInfo,
                                        pg_page = i, pg_text = text \<rparr>]
                       | None \<Rightarrow> [])
               [1..ve_totalPages volInfo])"

definition newVolumeOf :: "jsstring \<Rightarrow> int \<Rightarrow> VolumeEntry \<Rightarrow> VolumeInfo" where
  "newVolumeOf bookId now volInfo =
     \<lparr> vol_bookId = bookId, vol_volume = ve_volume volInfo,
       vol_totalPages = ve_totalPages volInfo, vol_importedAt = Some now \<rparr>"

text \<open>
  One round of \<^verbatim>\<open>for (const volInfo of manifest.volumes)\<close> in \<^verbatim>\<open>handleFileImport\<close>:
  the mirror is updated first, then the database.
\<close>

definition importVolume ::
  "(Request \<Rightarrow> bool) \<Rightarrow> int \<Rightarrow> (int \<Rightarrow> int \<Rightarrow> jsstring option) \<Rightarrow> jsstring \<Rightarrow> VolumeEntry \<Rightarrow>
   AppState \<Rightarrow> unit result \<times> AppState" where
  "importVolume fails now files bookId volInfo s =
     (let pages = readPages files bookId volInfo;
          newVolume = newVolumeOf bookId now volInfo;
          s = s\<lparr>pagesStore :=
                  filter (\<lambda>pg. \<not> (pg_bookId pg = bookId \<and> pg_volume pg = ve_volume volInfo))
                    (pagesStore s) @ pages\<rparr>;
          s = s\<lparr>volumesStore :=
                  filter (\<lambda>v. \<not> (vol_bookId v = bookId \<and> vol_volume v = ve_volume volInfo))
                    (volumesStore s) @ [newVolume]\<rparr>
      in andThen (deletePagesFromDB fails bookId (ve_volume volInfo) s) (\<lambda>s.
         andThen (savePagesToDB fails pages s)
                 (saveVolumeToDB fails newVolume)))"

text \<open>
  The same round in \<^verbatim>\<open>downloadSelectedVolumes\<close>: the pages of the mirror, the
  pages of the database, then the volume in the mirror and in the database.
\<close>

definition importVolume_download ::
  "(Request \<Rightarrow> bool) \<Rightarrow> int \<Rightarrow> (int \<Rightarrow> int \<Rightarrow> jsstring option) \<Rightarrow> jsstring \<Rightarrow> VolumeEntry \<Rightarrow>
   AppState \<Rightarrow> unit result \<times> AppState" where
  "importVolume_download fails now files bookId volInfo s =
     (let pages = readPages files bookId volInfo;
          s = s\<lparr>pagesStore :=
                  filter (\<lambda>pg. \<not> (pg_bookId pg = bookId \<and> pg_volume pg = ve_volume volInfo))
                    (pagesStore s) @ pages\<rparr>
      in andThen (deletePagesFromDB fails bookId (ve_volume volInfo) s) (\<lambda>s.
         andThen (savePagesToDB fails pages s) (\<lambda>s.
           let newVolume = newVolumeOf bookId now volInfo;
               s = s\<lparr>volumesStore :=
                       filter (\<lambda>v. \<not> (vol_bookId v = bookId \<and> vol_volume v = ve_volume volInfo))
                         (volumesStore s) @ [newVolume]\<rparr>
           in saveVolumeToDB fails newVolume s)))"

text \<open>The loop over the volumes of the manifest stops at the first failure.\<close>

fun forEachVolume ::
  "(VolumeEntry \<Rightarrow> AppState \<Rightarrow> unit result \<times> AppState) \<Rightarrow> VolumeEntry list \<Rightarrow> AppState \<Rightarrow>
   unit result \<times> AppState" where
  "forEachVolume step [] s = (Inr (), s)"
| "forEachVolume step (volInfo # rest) s = andThen (step volInfo s) (forEachVolume step rest)"

text \<open>
  Adding or updating the book after the volumes: \<^verbatim>\<open>Math.max\<close> over the volume
  numbers of the manifest; an existing book (the first of the mirror with the
  manifest's id) is updated in place, a new one is pushed.
\<close>

definition maxVolumeOf :: "Manifest \<Rightarrow> jsnumber" where
  "maxVolumeOf manifest = foldl jsmax NegInfinity (map (\<lambda>v. Num (ve_volume v)) (mf_volumes manifest))"

fun updateFirst :: "('a \<Rightarrow> bool) \<Rightarrow> ('a \<Rightarrow> 'a) \<Rightarrow> 'a list \<Rightarrow> 'a list" where
  "updateFirst P f [] = []"
| "updateFirst P f (x # xs) = (if P x then f x # xs else x # updateFirst P f xs)"

definition upsertBook ::
  "(Request \<Rightarrow> bool) \<Rightarrow> int \<Rightarrow> Manifest \<Rightarrow> AppState \<Rightarrow> unit result \<times> AppState" where
  "upsertBook fails now manifest s =
     (let maxVolume = maxVolumeOf manifest
      in case find (\<lambda>b. book_id b = mf_id manifest) (booksStore s) of
           Some existingBook \<Rightarrow>
             (let updated = existingBook\<lparr>book_volumes := jsmax (book_volumes existingBook) maxVolume\<rparr>;
                  s = s\<lparr>booksStore :=
                          updateFirst (\<lambda>b. book_id b = mf_id manifest) (\<lambda>b. updated) (booksStore s)\<rparr>
              in saveBookToDB fails updated s)
         | None \<Rightarrow>
             (let newBook = \<lparr> book_id = mf_id manifest, book_title = mf_title manifest,
                              book_author = mf_author manifest, book_volumes = maxVolume,
                              book_importedAt = Some now \<rparr>;
                  s = s\<lparr>booksStore := booksStore s @ [newBook]\<rparr>
              in saveBookToDB fails newBook s))"

text \<open>
  \<^verbatim>\<open>async function handleFileImport(e)\<close> on a chosen file (\<open>None\<close>: no file was
  chosen). Every exception inside is caught and reported as a failed import;
  what the loop over the volumes has written by then stays written.
\<close>

datatype ImportOutcome = NoFile | ManifestNotFound | ImportFailed | ImportSuccess

definition handleFileImport ::
  "(Request \<Rightarrow> bool) \<Rightarrow> int \<Rightarrow> Archive option \<Rightarrow> AppState \<Rightarrow> ImportOutcome \<times> AppState" where
  "handleFileImport fails now file s =
     (case file of
        None \<Rightarrow> (NoFile, s)
      | Some Unreadable \<Rightarrow> (ImportFailed, s)
      | Some NoManifest \<Rightarrow> (ManifestNotFound, s)
      | Some ManifestNotJSON \<Rightarrow> (ImportFailed, s)
      | Some (MalformedManifest manifest files) \<Rightarrow>
          (ImportFailed,
           snd (forEachVolume (importVolume fails now files (mf_id manifest))
                  (mf_volumes manifest) s))
      | Some (Archive manifest files) \<Rightarrow>
          (case andThen
                  (forEachVolume (importVolume fails now files (mf_id manifest))
                     (mf_volumes manifest) s)
                  (upsertBook fails now manifest) of
             (Inl e, s) \<Rightarrow> (ImportFailed, s)
           | (Inr u, s) \<Rightarrow> (ImportSuccess, s)))"

text \<open>
  The body of the \<^verbatim>\<open>try\<close> block of \<^verbatim>\<open>downloadSelectedVolumes\<close> for one downloaded
  archive (after the download itself): \<open>True\<close> when \<^verbatim>\<open>successCount\<close> is incremented.
\<close>

definition importDownloaded ::
  "(Request \<Rightarrow> bool) \<Rightarrow> int \<Rightarrow> Archive \<Rightarrow> AppState \<Rightarrow> bool \<times> AppState" where
  "importDownloaded fails now archive s =
     (case archive of
        Archive manifest files \<Rightarrow>
          (case andThen
                  (forEachVolume (importVolume_download fails now files (mf_id manifest))
                     (mf_volumes manifest) s)
                  (upsertBook fails now manifest) of
             (Inl e, s) \<Rightarrow> (False, s)
           | (Inr u, s) \<Rightarrow> (True, s))
      | MalformedManifest manifest files \<Rightarrow>
          (False,
           snd (forEachVolume (importVolume_download fails now files (mf_id manifest))
                  (mf_volumes manifest) s))
      | Unreadable \<Rightarrow> (False, s)
      | NoManifest \<Rightarrow> (False, s)
      | ManifestNotJSON \<Rightarrow> (False, s))"

text \<open>
  \<^verbatim>\<open>async function handleDeleteBook(book)\<close>; \<open>confirmed\<close> is the answer to the
  confirmation dialog. A failure of the database rejects the promise of the
  function.
\<close>

datatype DeleteOutcome = Cancelled | DeleteFailed StorageError | Deleted

definition translationIdOf :: "jsstring \<Rightarrow> jsstring" where
  "translationIdOf bookId = bookId @ ascii ''_en''"

definition handleDeleteBook ::
  "(Request \<Rightarrow> bool) \<Rightarrow> bool \<Rightarrow> Book \<Rightarrow> AppState \<Rightarrow> DeleteOutcome \<times> AppState" where
  "handleDeleteBook fails confirmed book s =
     (if \<not> confirmed then (Cancelled, s)
      else
        let translationBookId = translationIdOf (book_id book);
            s = s\<lparr>booksStore :=
                    filter (\<lambda>b. book_id b \<noteq> book_id book \<and> book_id b \<noteq> translationBookId)
                      (booksStore s)\<rparr>;
            s = s\<lparr>volumesStore :=
                    filter (\<lambda>v. vol_bookId v \<noteq> book_id book \<and> vol_bookId v \<noteq> translationBookId)
                      (volumesStore s)\<rparr>;
            s = s\<lparr>pagesStore :=
                    filter (\<lambda>p. pg_bookId p \<noteq> book_id book \<and> pg_bookId p \<noteq> translationBookId)
                      (pagesStore s)\<rparr>
        in case andThen (deleteBookFromDB fails (book_id book) s)
                  (deleteBookFromDB fails translationBookId) of
             (Inl e, s) \<Rightarrow> (DeleteFailed e, s)
           | (Inr u, s) \<Rightarrow> (Deleted, s))"

section \<open>Vocabulary of the properties\<close>

text \<open>The string \<open>q\<close> occurs in \<open>t\<close> at index \<open>k\<close>.\<close>

definition occursAt :: "jsstring \<Rightarrow> jsstring \<Rightarrow> nat \<Rightarrow> bool" where
  "occursAt t q k \<longleftrightarrow> k + length q \<le> length t \<and> take (length q) (drop k t) = q"

text \<open>
  A list of match indices in which every index is the first occurrence of \<open>q\<close>
  at or after the point the search was resumed from, and the search after a
  match is resumed from the end of that match.
\<close>

fun resumes :: "jsstring \<Rightarrow> jsstring \<Rightarrow> nat \<Rightarrow> nat list \<Rightarrow> bool" where
  "resumes t q from [] = True"
| "resumes t q from (i # rest) =
     (from \<le> i \<and> occursAt t q i \<and> (\<forall>k \<in> {from..<i}. \<not> occursAt t q k)
      \<and> resumes t q (i + length q) rest)"

text \<open>
  \<^verbatim>\<open>JSON.parse\<close> on the page texts of the examples below: none of them is a JSON
  document (each begins with a letter or a mark that starts no JSON value), so
  \<^verbatim>\<open>JSON.parse\<close> throws on each.
\<close>

definition plainText :: "jsstring \<Rightarrow> parsed" where
  "plainText text = SyntaxError"

text \<open>
  The key occurs in the text, compared as the regular expression compares;
  and, for comparison with \<^const>\<open>romanToArabic\<close>, the same replacements made in
  the order in which the table lists its keys.
\<close>

fun occursCI :: "jsstring \<Rightarrow> jsstring \<Rightarrow> bool" where
  "occursCI key [] = matchesAt key []"
| "occursCI key (c # cs) = (matchesAt key (c # cs) \<or> occursCI key cs)"

definition inTableOrder :: "(jsstring \<Rightarrow> jsstring) \<Rightarrow> jsstring \<Rightarrow> jsstring" where
  "inTableOrder toLowerCase text =
     foldl (\<lambda>result key. replaceAllCI key (lookupKey key) result) (toLowerCase text)
       (map fst ROMAN_TO_ARABIC)"

text \<open>
  \<^verbatim>\<open>String.prototype.toLowerCase\<close> on the strings of the examples below, which
  consist of Basic Latin and Arabic code units: the letters A to Z are lowered,
  nothing else changes.
\<close>

definition toLowerCaseBasic :: "jsstring \<Rightarrow> jsstring" where
  "toLowerCaseBasic s = map (\<lambda>c. if 0x41 \<le> c \<and> c \<le> 0x5A then c + 0x20 else c) s"



text \<open>A page on which "ab" occurs ten times, and the results of searching it for "ab".\<close>

definition pgTen :: Page where
  "pgTen = \<lparr> pg_bookId = ascii ''b1'', pg_volume = 1, pg_page = 3,
     pg_text = ascii ''ab ab ab ab ab ab ab ab ab ab'' \<rparr>"

definition resultTen :: "nat \<Rightarrow> SearchResult" where
  "resultTen n = \<lparr> res_bookId = ascii ''b1'', res_bookTitle = ascii ''b1'', res_volume = 1,
     res_page = 3, res_snippet = ascii ''ab ab ab ab ab ab ab ab ab ab'', res_matchIndex = n \<rparr>"

text \<open>
  A fully vocalized page: sixty times Baa with Fatha, then the word
  Ain-Lam-Meem, which is at index 120 of the text and at index 60 of the
  normalized text.
\<close>

definition pgVocalized :: Page where
  "pgVocalized = \<lparr> pg_bookId = ascii ''b1'', pg_volume = 1, pg_page = 4,
     pg_text = concat (replicate 60 [0x0628, 0x064E]) @ [0x0639, 0x0644, 0x0645] \<rparr>"

text \<open>
  Fifty-one queries with distinct keys: query number \<open>i\<close> is the letter a
  written \<open>i\<close> times, its result list is \<open>[i]\<close>, and it is cached at time \<open>i\<close>.
\<close>

definition exampleQuery :: "nat \<Rightarrow> SearchQuery" where
  "exampleQuery i = \<lparr> sq_query = replicate i 0x61, sq_mode = Exact,
     sq_sectFilter = ascii ''all'', sq_selectedBooks = [] \<rparr>"

definition exampleEntries :: "(SearchQuery \<times> nat list \<times> int) list" where
  "exampleEntries = map (\<lambda>i. (exampleQuery i, [i], int i)) [0..<51]"

text \<open>The page belongs to the given volume of the given book.\<close>

definition ofVolume :: "jsstring \<Rightarrow> int \<Rightarrow> Page \<Rightarrow> bool" where
  "ofVolume bookId volume pg \<longleftrightarrow> pg_bookId pg = bookId \<and> pg_volume pg = volume"

text \<open>What a successful round of either import loop does to the pages.\<close>

definition replacesPages ::
  "(int \<Rightarrow> int \<Rightarrow> jsstring option) \<Rightarrow> jsstring \<Rightarrow>
   (VolumeEntry \<Rightarrow> AppState \<Rightarrow> unit result \<times> AppState) \<Rightarrow> bool" where
  "replacesPages files b step \<longleftrightarrow>
     (\<forall>vi s s' u. step vi s = (Inr u, s') \<longrightarrow>
        pagesStore s' = filter (\<lambda>pg. \<not> ofVolume b (ve_volume vi) pg) (pagesStore s)
                          @ readPages files b vi
        \<and> db_pages (idb s') = filter (\<lambda>pg. \<not> ofVolume b (ve_volume vi) pg) (db_pages (idb s))
                          @ readPages files b vi)"

text \<open>
  The scenario of the shrunk volume: book b1 is in the mirror and the database
  with two pages of volume 1; the archive declares volume 1 with one page and
  holds that page. No request fails.
\<close>

definition oldPage :: "int \<Rightarrow> Page" where
  "oldPage n = \<lparr> pg_bookId = ascii ''b1'', pg_volume = 1, pg_page = n, pg_text = ascii ''old'' \<rparr>"

definition bookB1 :: Book where
  "bookB1 = \<lparr> book_id = ascii ''b1'', book_title = ascii ''Book'', book_author = None,
     book_volumes = Num 1, book_importedAt = Some 0 \<rparr>"

definition volumeB1 :: VolumeInfo where
  "volumeB1 = \<lparr> vol_bookId = ascii ''b1'', vol_volume = 1, vol_totalPages = 2,
     vol_importedAt = Some 0 \<rparr>"

definition stateB1 :: AppState where
  "stateB1 = \<lparr> booksStore = [bookB1], volumesStore = [volumeB1],
     pagesStore = [oldPage 1, oldPage 2],
     idb = \<lparr> db_opened = True, db_books = [bookB1], db_volumes = [volumeB1],
             db_pages = [oldPage 1, oldPage 2] \<rparr> \<rparr>"

definition shrunkManifest :: Manifest where
  "shrunkManifest = \<lparr> mf_id = ascii ''b1'', mf_title = ascii ''Book'', mf_author = None,
     mf_volumes = [\<lparr> ve_volume = 1, ve_totalPages = 1 \<rparr>] \<rparr>"

definition shrunkFiles :: "int \<Rightarrow> int \<Rightarrow> jsstring option" where
  "shrunkFiles volume page = (if volume = 1 \<and> page = 1 then Some (ascii ''new'') else None)"

definition newPage :: Page where
  "newPage = \<lparr> pg_bookId = ascii ''b1'', pg_volume = 1, pg_page = 1, pg_text = ascii ''new'' \<rparr>"

definition noFailure :: "Request \<Rightarrow> bool" where
  "noFailure request = False"

text \<open>
  A library with book b1, its translation b1_en and another book b2, each with
  one volume and one page, the same in the mirror and in the database.
\<close>

definition bookOf :: "string \<Rightarrow> Book" where
  "bookOf name = \<lparr> book_id = ascii name, book_title = ascii ''Book'', book_author = None,
     book_volumes = Num 1, book_importedAt = Some 0 \<rparr>"

definition volumeOf :: "string \<Rightarrow> VolumeInfo" where
  "volumeOf name = \<lparr> vol_bookId = ascii name, vol_volume = 1, vol_totalPages = 1,
     vol_importedAt = Some 0 \<rparr>"

definition pageOf :: "string \<Rightarrow> Page" where
  "pageOf name = \<lparr> pg_bookId = ascii name, pg_volume = 1, pg_page = 1, pg_text = ascii ''text'' \<rparr>"

definition libraryState :: AppState where
  "libraryState =
     \<lparr> booksStore = [bookOf ''b1'', bookOf ''b1_en'', bookOf ''b2''],
       volumesStore = [volumeOf ''b1'', volumeOf ''b1_en'', volumeOf ''b2''],
       pagesStore = [pageOf ''b1'', pageOf ''b1_en'', pageOf ''b2''],
       idb = \<lparr> db_opened = True,
               db_books = [bookOf ''b1'', bookOf ''b1_en'', bookOf ''b2''],
               db_volumes = [volumeOf ''b1'', volumeOf ''b1_en'', volumeOf ''b2''],
               db_pages = [pageOf ''b1'', pageOf ''b1_en'', pageOf ''b2''] \<rparr> \<rparr>"

text \<open>
  The application at startup: the mirror is empty, the connection is not open
  yet, and the database holds book b1 with one volume of two pages. Two
  environments: the read of the volumes fails; opening the database fails.
\<close>

definition startupState :: AppState where
  "startupState =
     \<lparr> booksStore = [], volumesStore = [], pagesStore = [],
       idb = \<lparr> db_opened = False, db_books = [bookB1], db_volumes = [volumeB1],
               db_pages = [oldPage 1, oldPage 2] \<rparr> \<rparr>"

definition volumesReadFails :: "Request \<Rightarrow> bool" where
  "volumesReadFails request \<longleftrightarrow> request = GetAllVolumes"

definition openFails :: "Request \<Rightarrow> bool" where
  "openFails request \<longleftrightarrow> request = OpenDB"

section \<open>Normalization: properties\<close>

lemma normalizeArabic_Nil: "normalizeArabic [] = []"
  by (simp add: normalizeArabic_def removeClass_def replaceClass_def)

lemma normalizeArabic_append:
  "normalizeArabic (xs @ ys) = normalizeArabic xs @ normalizeArabic ys"
  by (simp add: normalizeArabic_def removeClass_def replaceClass_def)

lemma normalizeArabic_Cons:
  "normalizeArabic (c # cs) = normalizeArabic [c] @ normalizeArabic cs"
  using normalizeArabic_append [of "[c]" cs] by simp

lemma normalizeArabic_single:
  "normalizeArabic [c] =
     (if ARABIC_DIACRITICS c then []
      else if alefVariants c then [0x0627]
      else if yaaVariants c then [0x064A]
      else if taaMarbuta c then [0x0647]
      else if hamzaForms c then []
      else [c])"
  unfolding normalizeArabic_def removeClass_def replaceClass_def
  by (simp add: alefVariants_def yaaVariants_def taaMarbuta_def hamzaForms_def)

lemma normalizeArabic_fixed:
  "normalizeArabic [0x0627] = [0x0627]"
  "normalizeArabic [0x064A] = [0x064A]"
  "normalizeArabic [0x0647] = [0x0647]"
  by (simp_all add: normalizeArabic_single ARABIC_DIACRITICS_def alefVariants_def
      yaaVariants_def taaMarbuta_def hamzaForms_def)

lemma normalizeArabic_unit:
  "normalizeArabic (normalizeArabic [c]) = normalizeArabic [c]"
proof -
  consider (dia) "ARABIC_DIACRITICS c"
    | (alef) "\<not> ARABIC_DIACRITICS c" "alefVariants c"
    | (yaa) "\<not> ARABIC_DIACRITICS c" "\<not> alefVariants c" "yaaVariants c"
    | (taa) "\<not> ARABIC_DIACRITICS c" "\<not> alefVariants c" "\<not> yaaVariants c" "taaMarbuta c"
    | (hamza) "\<not> ARABIC_DIACRITICS c" "\<not> alefVariants c" "\<not> yaaVariants c"
        "\<not> taaMarbuta c" "hamzaForms c"
    | (other) "\<not> ARABIC_DIACRITICS c" "\<not> alefVariants c" "\<not> yaaVariants c"
        "\<not> taaMarbuta c" "\<not> hamzaForms c"
    by blast
  then show ?thesis
  proof cases
    case dia
    then show ?thesis by (simp add: normalizeArabic_single normalizeArabic_Nil)
  next
    case alef
    then show ?thesis by (simp add: normalizeArabic_single [of c] normalizeArabic_fixed)
  next
    case yaa
    then show ?thesis by (simp add: normalizeArabic_single [of c] normalizeArabic_fixed)
  next
    case taa
    then show ?thesis by (simp add: normalizeArabic_single [of c] normalizeArabic_fixed)
  next
    case hamza
    then show ?thesis by (simp add: normalizeArabic_single [of c] normalizeArabic_Nil)
  next
    case other
    then show ?thesis by (simp add: normalizeArabic_single [of c])
  qed
qed

text \<open>
  C6. Normalization is idempotent: for every string \<open>s\<close>, normalizing the
  normalized string gives the normalized string again.
\<close>

theorem normalizeArabic_idempotent:
  "normalizeArabic (normalizeArabic s) = normalizeArabic s"
proof (induction s)
  case Nil
  show ?case by (simp add: normalizeArabic_Nil)
next
  case (Cons c cs)
  have "normalizeArabic (normalizeArabic (c # cs))
      = normalizeArabic (normalizeArabic [c] @ normalizeArabic cs)"
    by (subst normalizeArabic_Cons) (rule refl)
  also have "\<dots> = normalizeArabic (normalizeArabic [c]) @ normalizeArabic (normalizeArabic cs)"
    by (rule normalizeArabic_append)
  also have "\<dots> = normalizeArabic [c] @ normalizeArabic cs"
    by (simp only: normalizeArabic_unit Cons.IH)
  also have "\<dots> = normalizeArabic (c # cs)"
    by (rule normalizeArabic_Cons [symmetric])
  finally show ?case .
qed

section \<open>Transliteration: properties\<close>

lemma sortedKeys_eq: "sortedKeys =
    [
     ascii ''ahlulbayt'', ascii ''muhammad'', ascii ''mohammad'', ascii ''jahannam'',
     ascii ''hussein'', ascii ''shaytan'', ascii ''malaika'', ascii ''sahabah'',
     ascii ''madinah'', ascii ''husain'', ascii ''hadith'', ascii ''muslim'',
     ascii ''jannah'', ascii ''sunnah'', ascii ''masjid'', ascii ''makkah'',
     ascii ''ahlul'', ascii ''allah'', ascii ''hasan'', ascii ''quran'', ascii ''rasul'',
     ascii ''salat'', ascii ''zakat'', ascii ''islam'', ascii ''kitab'', ascii ''fatwa'',
     ascii ''kabah'', ascii ''sawm'', ascii ''iman'', ascii ''deen'', ascii ''rabb'',
     ascii ''fiqh'', ascii ''imam'', ascii ''nabi'', ascii ''hajj'', ascii ''bayt'',
     ascii ''nafs'', ascii ''qalb'', ascii ''ilm'', ascii ''aql'', ascii ''ruh'',
     ascii ''ali'', ascii ''din'', ascii ''ahl'', ascii ''th'', ascii ''kh'',
     ascii ''dh'', ascii ''sh'', ascii ''gh'', ascii ''aa'', ascii ''ee'', ascii ''ii'',
     ascii ''oo'', ascii ''uu'', ascii ''al'', ascii ''h2'', ascii ''a'', ascii ''b'',
     ascii ''t'', ascii ''j'', ascii ''h'', ascii ''d'', ascii ''r'', ascii ''z'',
     ascii ''s'', ascii ''S'', ascii ''D'', ascii ''T'', ascii ''Z'', [0x0027],
     ascii ''f'', ascii ''q'', ascii ''k'', ascii ''l'', ascii ''m'', ascii ''n'',
     ascii ''w'', ascii ''y'', ascii ''i'', ascii ''u'', ascii ''o'', ascii ''e'']"
  by (simp add: sortedKeys_def ROMAN_TO_ARABIC_def ascii_def)

lemma replaceAllCI_absent:
  "\<not> occursCI (k # ks) t \<Longrightarrow> replaceAllCI (k # ks) rep t = t"
proof (induction t)
  case Nil
  show ?case by simp
next
  case (Cons c cs)
  from Cons.prems have "\<not> matchesAt (k # ks) (c # cs)" and "\<not> occursCI (k # ks) cs"
    by simp_all
  with Cons.IH show ?case by (simp del: matchesAt.simps)
qed

text \<open>One round of the loop over the keys: a key that does not occur changes nothing.\<close>

lemma replace_round:
  "key \<noteq> [] \<Longrightarrow>
   foldl (\<lambda>result key. replaceAllCI key (lookupKey key) result) t (key # keys)
     = (if occursCI key t
        then foldl (\<lambda>result key. replaceAllCI key (lookupKey key) result)
               (replaceAllCI key (lookupKey key) t) keys
        else foldl (\<lambda>result key. replaceAllCI key (lookupKey key) result) t keys)"
  by (cases key) (simp_all add: replaceAllCI_absent del: occursCI.simps replaceAllCI.simps)

lemma table_keys_distinct: "distinct (map fst ROMAN_TO_ARABIC)"
  by (simp add: ROMAN_TO_ARABIC_def ascii_def)

lemma sortedKeys_descending: "sorted_wrt (\<lambda>a b. length a \<ge> length b) sortedKeys"
proof -
  have "sorted (map (\<lambda>k. - int (length k)) sortedKeys)"
    unfolding sortedKeys_def by (rule sorted_sort_key)
  then show ?thesis by (simp add: sorted_map)
qed

lemma lookupKey_values:
  "lookupKey (ascii ''ahlulbayt'') = [0x0627, 0x0647, 0x0644, 0x0020, 0x0627, 0x0644, 0x0628, 0x064A, 0x062A]"
  "lookupKey (ascii ''masjid'') = [0x0645, 0x0633, 0x062C, 0x062F]"
  "lookupKey (ascii ''sawm'') = [0x0635, 0x0648, 0x0645]"
  "lookupKey (ascii ''a'') = [0x0627]"
  "lookupKey (ascii ''s'') = [0x0633]"
  "lookupKey (ascii ''w'') = [0x0648]"
  "lookupKey (ascii ''j'') = [0x062C]"
  "lookupKey (ascii ''d'') = [0x062F]"
  "lookupKey (ascii ''i'') = [0x064A]"
  by (simp_all add: lookupKey_def ROMAN_TO_ARABIC_def ascii_def)

lemma romanToArabic_ahlulbayt_value:
  assumes "toLowerCase (ascii ''ahlulbayt'') = ascii ''ahlulbayt''"
  shows "romanToArabic toLowerCase (ascii ''ahlulbayt'') =
     [0x0627, 0x0647, 0x0644, 0x0020, 0x0627, 0x0644, 0x0628, 0x064A, 0x062A]"
  unfolding romanToArabic_def assms sortedKeys_eq
  by (simp add: replace_round lookupKey_values [unfolded ascii_def, simplified]
      ROMAN_TO_ARABIC_def ascii_def canonicalize_def del: foldl_Cons)

lemma romanToArabic_sawmasjid_value:
  assumes "toLowerCase (ascii ''sawmasjid'') = ascii ''sawmasjid''"
  shows "romanToArabic toLowerCase (ascii ''sawmasjid'') =
     [0x0633, 0x0627, 0x0648, 0x0645, 0x0633, 0x062C, 0x062F]"
  unfolding romanToArabic_def assms sortedKeys_eq
  by (simp add: replace_round lookupKey_values [unfolded ascii_def, simplified]
      ROMAN_TO_ARABIC_def ascii_def canonicalize_def del: foldl_Cons)

lemma inTableOrder_sawmasjid_value:
  assumes "toLowerCase (ascii ''sawmasjid'') = ascii ''sawmasjid''"
  shows "inTableOrder toLowerCase (ascii ''sawmasjid'') =
     [0x0635, 0x0648, 0x0645, 0x0627, 0x0633, 0x062C, 0x064A, 0x062F]"
  unfolding inTableOrder_def assms
  by (simp add: replace_round lookupKey_values [unfolded ascii_def, simplified]
      ROMAN_TO_ARABIC_def ascii_def canonicalize_def del: foldl_Cons)

lemma single_letters_ahlulbayt:
  "concat (map (\<lambda>c. lookupKey [c]) (ascii ''ahlulbayt''))
    = [0x0627, 0x062D, 0x0644, 0x0648, 0x0644, 0x0628, 0x0627, 0x064A, 0x062A]"
  by (simp add: lookupKey_def ROMAN_TO_ARABIC_def ascii_def)

lemma sortedKeys_permutation:
  "set sortedKeys = set (map fst ROMAN_TO_ARABIC)"
  "length sortedKeys = length ROMAN_TO_ARABIC"
  "distinct sortedKeys"
  by (simp_all add: sortedKeys_def table_keys_distinct)

text \<open>
  C7. \<^const>\<open>romanToArabic\<close> lowers the text and then makes one replacement round
  per key of the table, in the order of \<^const>\<open>sortedKeys\<close>: every key of the
  table exactly once, no key before a longer one, the whole-phrase key
  "ahlulbayt" first. So, where lowering leaves the two example words as they
  are,

  \<^item> "ahlulbayt" becomes the table's phrase (Alef Haa Lam, space, Alef Lam Baa
    Yaa Taa), which is not the concatenation of the single-letter entries for
    a, h, l, u, l, b, a, y, t;

  \<^item> "sawmasjid" becomes Seen Alef Waw, Meem Seen Jeem Dal: the six-letter key
    "masjid" is replaced before the four-letter key "sawm", which the table
    lists earlier; the same rounds made in the order of the table would give
    Sad Waw Meem, Alef Seen Jeem Yaa Dal instead.
\<close>

theorem romanToArabic_longest_key_first:
  assumes "toLowerCase (ascii ''ahlulbayt'') = ascii ''ahlulbayt''"
    and "toLowerCase (ascii ''sawmasjid'') = ascii ''sawmasjid''"
  shows
  "romanToArabic toLowerCase text
       = foldl (\<lambda>result key. replaceAllCI key (lookupKey key) result)
           (toLowerCase text) sortedKeys
   \<and> set sortedKeys = set (map fst ROMAN_TO_ARABIC)
   \<and> length sortedKeys = length ROMAN_TO_ARABIC
   \<and> distinct sortedKeys
   \<and> sorted_wrt (\<lambda>a b. length a \<ge> length b) sortedKeys
   \<and> hd sortedKeys = ascii ''ahlulbayt''
   \<and> romanToArabic toLowerCase (ascii ''ahlulbayt'')
       = [0x0627, 0x0647, 0x0644, 0x0020, 0x0627, 0x0644, 0x0628, 0x064A, 0x062A]
   \<and> romanToArabic toLowerCase (ascii ''ahlulbayt'')
       \<noteq> concat (map (\<lambda>c. lookupKey [c]) (ascii ''ahlulbayt''))
   \<and> romanToArabic toLowerCase (ascii ''sawmasjid'')
       = [0x0633, 0x0627, 0x0648, 0x0645, 0x0633, 0x062C, 0x062F]
   \<and> inTableOrder toLowerCase (ascii ''sawmasjid'')
       = [0x0635, 0x0648, 0x0645, 0x0627, 0x0633, 0x062C, 0x064A, 0x062F]
   \<and> romanToArabic toLowerCase (ascii ''sawmasjid'')
       \<noteq> inTableOrder toLowerCase (ascii ''sawmasjid'')"
proof -
  have fold: "romanToArabic toLowerCase text
       = foldl (\<lambda>result key. replaceAllCI key (lookupKey key) result)
           (toLowerCase text) sortedKeys"
    by (simp add: romanToArabic_def)
  have first: "hd sortedKeys = ascii ''ahlulbayt''"
    by (simp add: sortedKeys_eq)
  note phrase = romanToArabic_ahlulbayt_value [of toLowerCase, OF assms(1)]
  have letters: "romanToArabic toLowerCase (ascii ''ahlulbayt'')
       \<noteq> concat (map (\<lambda>c. lookupKey [c]) (ascii ''ahlulbayt''))"
    unfolding phrase single_letters_ahlulbayt by simp
  note byLength = romanToArabic_sawmasjid_value [of toLowerCase, OF assms(2)]
  note byTable = inTableOrder_sawmasjid_value [of toLowerCase, OF assms(2)]
  have differ: "romanToArabic toLowerCase (ascii ''sawmasjid'')
       \<noteq> inTableOrder toLowerCase (ascii ''sawmasjid'')"
    unfolding byLength byTable by simp
  show ?thesis
    by (rule conjI [OF fold conjI [OF sortedKeys_permutation(1)
          conjI [OF sortedKeys_permutation(2) conjI [OF sortedKeys_permutation(3)
          conjI [OF sortedKeys_descending conjI [OF first conjI [OF phrase
          conjI [OF letters conjI [OF byLength conjI [OF byTable differ]]]]]]]]]])
qed

theorem romanToArabic_longest_key_first_witness:
  "toLowerCaseBasic (ascii ''ahlulbayt'') = ascii ''ahlulbayt''
   \<and> toLowerCaseBasic (ascii ''sawmasjid'') = ascii ''sawmasjid''
   \<and> romanToArabic toLowerCaseBasic (ascii ''ahlulbayt'')
       = [0x0627, 0x0647, 0x0644, 0x0020, 0x0627, 0x0644, 0x0628, 0x064A, 0x062A]
   \<and> romanToArabic toLowerCaseBasic (ascii ''sawmasjid'')
       = [0x0633, 0x0627, 0x0648, 0x0645, 0x0633, 0x062C, 0x062F]
   \<and> inTableOrder toLowerCaseBasic (ascii ''sawmasjid'')
       = [0x0635, 0x0648, 0x0645, 0x0627, 0x0633, 0x062C, 0x064A, 0x062F]"
proof -
  have h1: "toLowerCaseBasic (ascii ''ahlulbayt'') = ascii ''ahlulbayt''"
    by (simp add: toLowerCaseBasic_def ascii_def)
  have h2: "toLowerCaseBasic (ascii ''sawmasjid'') = ascii ''sawmasjid''"
    by (simp add: toLowerCaseBasic_def ascii_def)
  note t = romanToArabic_longest_key_first [of toLowerCaseBasic "ascii ''sawmasjid''", OF h1 h2]
  from t h1 h2 show ?thesis by blast
qed

section \<open>Search: properties\<close>



lemma indexOfAux_Some:
  "indexOfAux q t k = Some i \<Longrightarrow>
     k \<le> i \<and> i \<le> k + length t \<and> prefix q (drop (i - k) t)
     \<and> (\<forall>j. j < i - k \<longrightarrow> \<not> prefix q (drop j t))"
proof (induction t arbitrary: k)
  case Nil
  then show ?case by (simp split: if_splits)
next
  case (Cons c cs)
  show ?case
  proof (cases "prefix q (c # cs)")
    case True
    with Cons.prems show ?thesis by simp
  next
    case False
    with Cons.prems have rec: "indexOfAux q cs (Suc k) = Some i" by simp
    from Cons.IH [OF rec] have ih: "Suc k \<le> i" "i \<le> Suc k + length cs"
      "prefix q (drop (i - Suc k) cs)"
      "\<forall>j. j < i - Suc k \<longrightarrow> \<not> prefix q (drop j cs)"
      by auto
    have d: "i - k = Suc (i - Suc k)" using ih(1) by simp
    have "\<not> prefix q (drop j (c # cs))" if "j < i - k" for j
    proof (cases j)
      case 0
      with False show ?thesis by simp
    next
      case (Suc j')
      with that d have "j' < i - Suc k" by simp
      with ih(4) Suc show ?thesis by simp
    qed
    with ih d show ?thesis by simp
  qed
qed

lemma occursAt_prefix: "occursAt t q k \<longleftrightarrow> k \<le> length t \<and> prefix q (drop k t)"
proof
  assume a: "occursAt t q k"
  then have "take (length q) (drop k t) = q" and "k + length q \<le> length t"
    by (simp_all add: occursAt_def)
  then have "prefix q (drop k t)" "k \<le> length t"
    using take_is_prefix [of "length q" "drop k t"] by simp_all
  then show "k \<le> length t \<and> prefix q (drop k t)" by simp
next
  assume a: "k \<le> length t \<and> prefix q (drop k t)"
  then obtain zs where z: "drop k t = q @ zs" by (auto simp: prefix_def)
  then have "take (length q) (drop k t) = q" by simp
  moreover have "length (drop k t) = length q + length zs" using z by simp
  then have "length t - k = length q + length zs" by simp
  then have "k + length q \<le> length t" using conjunct1 [OF a] by arith
  ultimately show "occursAt t q k" by (simp add: occursAt_def)
qed

lemma indexOf_Some:
  assumes "indexOf t q from = Some i" and "from \<le> length t"
  shows "from \<le> i \<and> occursAt t q i \<and> (\<forall>k \<in> {from..<i}. \<not> occursAt t q k)"
proof -
  from assms have aux: "indexOfAux q (drop from t) from = Some i"
    by (simp add: indexOf_def min_def)
  from indexOfAux_Some [OF aux]
  have le: "from \<le> i" and up: "i \<le> from + length (drop from t)"
    and pre: "prefix q (drop (i - from) (drop from t))"
    and first: "\<forall>j. j < i - from \<longrightarrow> \<not> prefix q (drop j (drop from t))"
    by auto
  from up assms(2) have "i \<le> length t" by simp
  moreover from pre le have "prefix q (drop i t)" by simp
  ultimately have occ: "occursAt t q i" by (simp add: occursAt_prefix)
  have "\<not> occursAt t q k" if "k \<in> {from..<i}" for k
  proof -
    from that have "k - from < i - from" and "from \<le> k" by auto
    with first have "\<not> prefix q (drop (k - from) (drop from t))" by blast
    with \<open>from \<le> k\<close> have "\<not> prefix q (drop k t)" by simp
    then show ?thesis by (simp add: occursAt_prefix)
  qed
  with le occ show ?thesis by blast
qed

lemma matchLoop_length: "length (matchLoop t q i n) \<le> max 1 (3 - n)"
proof (induction t q i n rule: matchLoop.induct)
  case (1 t q i n)
  show ?case
  proof (cases "indexOf t q i")
    case None
    then show ?thesis by (simp add: matchLoop.simps [of t q i n])
  next
    case (Some found)
    show ?thesis
    proof (cases "n + 1 \<ge> 3")
      case True
      with Some show ?thesis by (simp add: matchLoop.simps [of t q i n])
    next
      case False
      with "1.IH" [OF Some] have "length (matchLoop t q (found + length q) (n + 1)) \<le> max 1 (3 - (n + 1))"
        by simp
      with Some False show ?thesis by (simp add: matchLoop.simps [of t q i n])
    qed
  qed
qed

lemma matchLoop_counts:
  "map snd (matchLoop t q i n) = [n..<n + length (matchLoop t q i n)]"
proof (induction t q i n rule: matchLoop.induct)
  case (1 t q i n)
  show ?case
  proof (cases "indexOf t q i")
    case None
    then show ?thesis by (simp add: matchLoop.simps [of t q i n])
  next
    case (Some found)
    show ?thesis
    proof (cases "n + 1 \<ge> 3")
      case True
      with Some show ?thesis by (simp add: matchLoop.simps [of t q i n] upt_conv_Cons)
    next
      case False
      define rest where "rest = matchLoop t q (found + length q) (n + 1)"
      from False "1.IH" [OF Some] have ih: "map snd rest = [Suc n..<Suc n + length rest]"
        unfolding rest_def by simp
      have unfold: "matchLoop t q i n = (found, n) # rest"
        using Some False by (simp add: matchLoop.simps [of t q i n] rest_def)
      have "[n..<n + Suc (length rest)] = n # [Suc n..<n + Suc (length rest)]"
        by (rule upt_conv_Cons) simp
      then show ?thesis
        unfolding unfold using ih by simp
    qed
  qed
qed

lemma matchLoop_resumes:
  "from \<le> length t \<Longrightarrow> resumes t q from (map fst (matchLoop t q from n))"
proof (induction t q "from" n rule: matchLoop.induct)
  case (1 t q i n)
  show ?case
  proof (cases "indexOf t q i")
    case None
    then show ?thesis by (simp add: matchLoop.simps [of t q i n])
  next
    case (Some found)
    from indexOf_Some [OF Some "1.prems"]
    have f: "i \<le> found" "occursAt t q found" "\<forall>k \<in> {i..<found}. \<not> occursAt t q k"
      by auto
    then have next_ok: "found + length q \<le> length t" by (simp add: occursAt_def)
    show ?thesis
    proof (cases "n + 1 \<ge> 3")
      case True
      with Some f show ?thesis by (simp add: matchLoop.simps [of t q i n])
    next
      case False
      with "1.IH" [OF Some _ next_ok]
      have "resumes t q (found + length q) (map fst (matchLoop t q (found + length q) (n + 1)))"
        by simp
      with Some False f show ?thesis by (simp add: matchLoop.simps [of t q i n])
    qed
  qed
qed


lemma searchPage_keys: "r \<in> set (searchPage parse mode books q pg) \<Longrightarrow> resultKey r = pageKey pg"
  by (auto simp: searchPage_def buildResult_def resultKey_def pageKey_def Let_def)

lemma searchPage_length: "length (searchPage parse mode books q pg) \<le> 3"
  using matchLoop_length [of "textForMatching parse mode pg" q 0 0]
  by (simp add: searchPage_def)


lemma searchPage_positions:
  "\<exists>ps. length ps \<le> 3 \<and> resumes (textForMatching parse mode pg) q 0 ps
     \<and> searchPage parse mode books q pg
        = map (\<lambda>(i, n). buildResult books pg (textToSearch parse pg) q i n)
            (zip ps [0..<length ps])"
proof -
  let ?ms = "matchLoop (textForMatching parse mode pg) q 0 0"
  have "zip (map fst ?ms) (map snd ?ms) = ?ms" by (simp add: zip_map_fst_snd)
  then have "zip (map fst ?ms) [0..<length (map fst ?ms)] = ?ms"
    using matchLoop_counts [of "textForMatching parse mode pg" q 0 0] by simp
  moreover have "length (map fst ?ms) \<le> 3"
    using matchLoop_length [of "textForMatching parse mode pg" q 0 0] by simp
  moreover have "resumes (textForMatching parse mode pg) q 0 (map fst ?ms)"
    by (rule matchLoop_resumes) simp
  ultimately show ?thesis
    unfolding searchPage_def by metis
qed









lemma results_of_absent_key:
  "key \<notin> pageKey ` set pgs \<Longrightarrow>
   filter (\<lambda>r. resultKey r = key) (concat (map (searchPage parse mode books q) pgs)) = []"
  by (auto simp: filter_empty_conv dest: searchPage_keys)

lemma results_of_page:
  "distinct (map pageKey pgs) \<Longrightarrow> pg \<in> set pgs \<Longrightarrow>
   filter (\<lambda>r. resultKey r = pageKey pg) (concat (map (searchPage parse mode books q) pgs))
     = searchPage parse mode books q pg"
proof (induction pgs)
  case Nil
  then show ?case by simp
next
  case (Cons p ps)
  show ?case
  proof (cases "p = pg")
    case True
    with Cons.prems have "pageKey pg \<notin> pageKey ` set ps" by auto
    then have "filter (\<lambda>r. resultKey r = pageKey pg)
        (concat (map (searchPage parse mode books q) ps)) = []"
      by (rule results_of_absent_key)
    moreover have "filter (\<lambda>r. resultKey r = pageKey pg) (searchPage parse mode books q pg)
        = searchPage parse mode books q pg"
      by (auto simp: filter_id_conv dest: searchPage_keys)
    ultimately show ?thesis using True by simp
  next
    case False
    with Cons.prems have in_ps: "pg \<in> set ps" and "pageKey p \<noteq> pageKey pg" by auto
    then have "filter (\<lambda>r. resultKey r = pageKey pg) (searchPage parse mode books q p) = []"
      by (auto simp: filter_empty_conv dest: searchPage_keys)
    moreover from Cons.prems have "distinct (map pageKey ps)" by simp
    ultimately show ?thesis using Cons.IH in_ps by simp
  qed
qed

text \<open>
  C5. Result cap per page. The results of one call of \<^verbatim>\<open>performSearch\<close> are the
  results of the candidate pages one after the other, and each page gives at
  most three of them, all for that page: they are built from at most three
  match indices, each the first occurrence of the term at or after the end of
  the previous match (the first one from index 0). So, the pages of the mirror
  being keyed uniquely, at most three results are for any one page, however
  often the term occurs on it.
\<close>

theorem performSearch_result_cap:
  assumes "performSearch parse toLowerCase inputMode searchMode searchSectFilter searchSelectedBooks
             books pages query = Some results"
  shows "(\<exists>perPage.
            results = concat (map perPage
                        (filter (pageSelected searchSectFilter searchSelectedBooks) pages))
            \<and> (\<forall>pg. length (perPage pg) \<le> 3
                  \<and> (\<forall>r \<in> set (perPage pg). resultKey r = pageKey pg)
                  \<and> (\<exists>ps. length ps \<le> 3
                        \<and> resumes (textForMatching parse searchMode pg)
                             (normalizedSearchTermOf toLowerCase inputMode searchMode query) 0 ps
                        \<and> perPage pg
                            = map (\<lambda>(i, n). buildResult books pg (textToSearch parse pg)
                                     (normalizedSearchTermOf toLowerCase inputMode searchMode query) i n)
                                (zip ps [0..<length ps]))))
    \<and> (distinct (map pageKey pages) \<longrightarrow>
          (\<forall>key. length (filter (\<lambda>r. resultKey r = key) results) \<le> 3))"
proof (intro conjI impI allI)
  let ?q = "normalizedSearchTermOf toLowerCase inputMode searchMode query"
  let ?flt = "filter (pageSelected searchSectFilter searchSelectedBooks) pages"
  let ?perPage = "searchPage parse searchMode books ?q"
  from assms have res: "results = concat (map ?perPage ?flt)"
    by (simp add: performSearch_def Let_def split: if_splits)
  have "length (?perPage pg) \<le> 3
      \<and> (\<forall>r \<in> set (?perPage pg). resultKey r = pageKey pg)
      \<and> (\<exists>ps. length ps \<le> 3
            \<and> resumes (textForMatching parse searchMode pg) ?q 0 ps
            \<and> ?perPage pg
                = map (\<lambda>(i, n). buildResult books pg (textToSearch parse pg) ?q i n)
                    (zip ps [0..<length ps]))" for pg
    using searchPage_length [of parse searchMode books ?q pg]
      searchPage_positions [of parse searchMode pg ?q books]
      searchPage_keys [of _ parse searchMode books ?q pg]
    by blast
  with res show "\<exists>perPage.
      results = concat (map perPage ?flt)
      \<and> (\<forall>pg. length (perPage pg) \<le> 3
            \<and> (\<forall>r \<in> set (perPage pg). resultKey r = pageKey pg)
            \<and> (\<exists>ps. length ps \<le> 3
                  \<and> resumes (textForMatching parse searchMode pg) ?q 0 ps
                  \<and> perPage pg
                      = map (\<lambda>(i, n). buildResult books pg (textToSearch parse pg) ?q i n)
                          (zip ps [0..<length ps])))"
    by (intro exI [of _ ?perPage]) blast
next
  fix key
  let ?q = "normalizedSearchTermOf toLowerCase inputMode searchMode query"
  let ?flt = "filter (pageSelected searchSectFilter searchSelectedBooks) pages"
  assume "distinct (map pageKey pages)"
  then have dist: "distinct (map pageKey ?flt)"
    by (rule distinct_map_filter)
  from assms have res: "results = concat (map (searchPage parse searchMode books ?q) ?flt)"
    by (simp add: performSearch_def Let_def split: if_splits)
  show "length (filter (\<lambda>r. resultKey r = key) results) \<le> 3"
  proof (cases "key \<in> pageKey ` set ?flt")
    case True
    then obtain pg where pg: "pg \<in> set ?flt" and key: "key = pageKey pg" by auto
    have "filter (\<lambda>r. resultKey r = pageKey pg) results = searchPage parse searchMode books ?q pg"
      unfolding res using dist pg by (rule results_of_page)
    with searchPage_length [of parse searchMode books ?q pg] key
    show ?thesis by simp
  next
    case False
    then show ?thesis
      unfolding res by (simp add: results_of_absent_key)
  qed
qed

text \<open>The theorem at the page with ten occurrences: three results.\<close>

lemma pgTen_search:
  "performSearch plainText toLowerCaseBasic Arabic Exact AllSects {} [] [pgTen] (ascii ''ab'')
     = Some [resultTen 0, resultTen 1, resultTen 2]"
  by (simp add: pageSelected_def textToSearch_def plainText_def pgTen_def resultTen_def ascii_def
      performSearch_def trim_def isWhiteSpace_def normalizedSearchTermOf_def searchTermOf_def
      searchPage_def textForMatching_def matchLoop.simps indexOf_def buildResult_def
      substring_def bookTitleFor_def Let_def)

lemma pgTen_occurrences:
  "length (filter (occursAt (textToSearch plainText pgTen) (ascii ''ab''))
     [0..<length (textToSearch plainText pgTen)]) = 10"
  by (simp add: textToSearch_def plainText_def pgTen_def ascii_def occursAt_def upt_rec)

theorem performSearch_result_cap_witness:
  "performSearch plainText toLowerCaseBasic Arabic Exact AllSects {} [] [pgTen] (ascii ''ab'')
     = Some [resultTen 0, resultTen 1, resultTen 2]
   \<and> distinct (map pageKey [pgTen])
   \<and> length (filter (occursAt (textToSearch plainText pgTen) (ascii ''ab''))
        [0..<length (textToSearch plainText pgTen)]) = 10
   \<and> length (filter (\<lambda>r. resultKey r = pageKey pgTen)
        [resultTen 0, resultTen 1, resultTen 2]) \<le> 3
   \<and> (\<exists>perPage.
        [resultTen 0, resultTen 1, resultTen 2]
          = concat (map perPage (filter (pageSelected AllSects {}) [pgTen]))
        \<and> (\<forall>pg. length (perPage pg) \<le> 3
              \<and> (\<forall>r \<in> set (perPage pg). resultKey r = pageKey pg)
              \<and> (\<exists>ps. length ps \<le> 3
                    \<and> resumes (textForMatching plainText Exact pg)
                         (normalizedSearchTermOf toLowerCaseBasic Arabic Exact (ascii ''ab'')) 0 ps
                    \<and> perPage pg
                        = map (\<lambda>(i, n). buildResult [] pg (textToSearch plainText pg)
                                 (normalizedSearchTermOf toLowerCaseBasic Arabic Exact (ascii ''ab'')) i n)
                            (zip ps [0..<length ps]))))"
proof -
  have h2: "distinct (map pageKey [pgTen])" by simp
  from performSearch_result_cap [OF pgTen_search]
  have parts: "\<exists>perPage.
        [resultTen 0, resultTen 1, resultTen 2]
          = concat (map perPage (filter (pageSelected AllSects {}) [pgTen]))
        \<and> (\<forall>pg. length (perPage pg) \<le> 3
              \<and> (\<forall>r \<in> set (perPage pg). resultKey r = pageKey pg)
              \<and> (\<exists>ps. length ps \<le> 3
                    \<and> resumes (textForMatching plainText Exact pg)
                         (normalizedSearchTermOf toLowerCaseBasic Arabic Exact (ascii ''ab'')) 0 ps
                    \<and> perPage pg
                        = map (\<lambda>(i, n). buildResult [] pg (textToSearch plainText pg)
                                 (normalizedSearchTermOf toLowerCaseBasic Arabic Exact (ascii ''ab'')) i n)
                            (zip ps [0..<length ps])))"
    and cap: "distinct (map pageKey [pgTen]) \<longrightarrow>
        (\<forall>key. length (filter (\<lambda>r. resultKey r = key)
           [resultTen 0, resultTen 1, resultTen 2]) \<le> 3)"
    by (rule conjunct1, rule conjunct2)
  from cap h2 have "length (filter (\<lambda>r. resultKey r = pageKey pgTen)
      [resultTen 0, resultTen 1, resultTen 2]) \<le> 3"
    by blast
  with pgTen_search h2 pgTen_occurrences parts show ?thesis
    by (intro conjI)
qed

text \<open>
  C2. The window of a snippet is computed from the index of the match in the
  text that was matched, and cut out of the text before normalization. In
  root mode on the vocalized page the match is at index 60 of the normalized
  text and at index 120 of the original: the snippet is the original from
  index 10 to index 113, between two ellipsis markers, and does not contain the
  matched word at all.
\<close>

theorem performSearch_snippet_vocalized:
  "occursAt (textToSearch plainText pgVocalized) [0x0639, 0x0644, 0x0645] 120
   \<and> indexOf (textForMatching plainText Root pgVocalized) [0x0639, 0x0644, 0x0645] 0 = Some 60
   \<and> performSearch plainText toLowerCaseBasic Arabic Root AllSects {} [] [pgVocalized] [0x0639, 0x0644, 0x0645]
       = Some [\<lparr> res_bookId = ascii ''b1'', res_bookTitle = ascii ''b1'', res_volume = 1,
            res_page = 4,
            res_snippet = ascii ''...'' @ concat (replicate 51 [0x0628, 0x064E]) @ [0x0628]
                            @ ascii ''...'',
            res_matchIndex = 0 \<rparr>]
   \<and> \<not> sublist [0x0639, 0x0644, 0x0645]
         (ascii ''...'' @ concat (replicate 51 [0x0628, 0x064E]) @ [0x0628] @ ascii ''...'')"
  by code_simp

section \<open>Offloaded search: the two strategies agree\<close>

lemma normalizeArabic_worker_mainThread:
  "normalizeArabic_worker text = normalizeArabic_mainThread text"
  by (simp add: normalizeArabic_worker_def normalizeArabic_mainThread_def)

lemma extractSnippet_150:
  "extractSnippet text matchIndex 150 =
     (let start = max 0 (matchIndex - 75);
          end = min (length text) (matchIndex + 75);
          snippet = substring text start end;
          snippet = (if start > 0 then ascii ''...'' @ snippet else snippet);
          snippet = (if end < length text then snippet @ ascii ''...'' else snippet)
      in snippet)"
proof -
  have s: "nat (max 0 (2 * int matchIndex - 150) div 2) = max 0 (matchIndex - 75)"
    by arith
  have e: "nat (min (2 * int (length text)) (2 * int matchIndex + 150) div 2)
      = min (length text) (matchIndex + 75)"
    by arith
  have s0: "max 0 (2 * int matchIndex - 150) > 0 \<longleftrightarrow> max 0 (matchIndex - 75) > 0"
    by arith
  have e0: "min (2 * int (length text)) (2 * int matchIndex + 150) < 2 * int (length text)
      \<longleftrightarrow> min (length text) (matchIndex + 75) < length text"
    by arith
  show ?thesis
    unfolding extractSnippet_def Let_def
    by (simp only: s e s0 e0 of_nat_numeral)
qed

lemma workerPage_mainThreadPage: "workerPage = mainThreadPage"
proof (intro ext)
  fix mode books q page fullText
  show "workerPage mode books q page fullText = mainThreadPage mode books q page fullText"
    by (cases mode)
      (simp_all add: workerPage_def mainThreadPage_def normalizeArabic_worker_mainThread
        extractSnippet_150 Let_def split: option.splits)
qed

text \<open>
  C10. The scan of the worker and the fallback on the interactive thread return
  the same list of results for every query, match mode, page list and book
  list (and whatever \<^verbatim>\<open>JSON.parse\<close> makes of the page texts).
\<close>

theorem worker_and_mainThread_agree:
  "performSearch_worker parse query mode pages books
     = performSearchMainThread parse query mode pages books"
  unfolding performSearch_worker_def performSearchMainThread_def
  by (simp only: normalizeArabic_worker_mainThread workerPage_mainThreadPage)

section \<open>Search result cache: properties\<close>

lemma cacheKeyOf_nonempty: "cacheKeyOf sq \<noteq> []"
  by (cases "sq_mode sq") (simp_all add: cacheKeyOf_def getSearchCacheKey_def Let_def ascii_def)

lemma fst_entryOf: "fst (entryOf e) = cacheKeyOf (fst e)"
  by (cases e) (simp add: entryOf_def)

lemma fst_entryOf_comp: "fst \<circ> entryOf = cacheKeyOf \<circ> fst"
  by (simp add: fun_eq_iff fst_entryOf)

lemma keys_entryOf: "map fst (map entryOf es) = map (cacheKeyOf \<circ> fst) es"
  by (simp add: fst_entryOf_comp)

lemma keyset_entryOf: "fst ` set (map entryOf es) = set (map (cacheKeyOf \<circ> fst) es)"
  using keys_entryOf [of es] by (metis set_map)

lemma cacheAll_snoc:
  "cacheAll (es @ [e]) c
     = cacheSearchResults (cacheKeyOf (fst e)) (fst (snd e)) (snd (snd e)) (cacheAll es c)"
  by (cases e) (simp add: cacheAll_def)

lemma cacheSearchResults_room:
  assumes "length c < CACHE_SIZE" and "k \<notin> fst ` set c"
  shows "cacheSearchResults k rs t c = c @ [(k, \<lparr> cs_results = rs, cs_timestamp = t \<rparr>)]"
  using assms by (simp add: cacheSearchResults_def mapSet_def)

lemma cacheAll_below_capacity:
  "length es \<le> CACHE_SIZE \<Longrightarrow> distinct (map (cacheKeyOf \<circ> fst) es) \<Longrightarrow>
   cacheAll es [] = map entryOf es"
proof (induction es rule: rev_induct)
  case Nil
  show ?case by (simp add: cacheAll_def)
next
  case (snoc e es)
  then have ih: "cacheAll es [] = map entryOf es" by simp
  have len: "length (map entryOf es) < CACHE_SIZE" using snoc.prems by simp
  from snoc.prems have new: "cacheKeyOf (fst e) \<notin> fst ` set (map entryOf es)"
    unfolding keyset_entryOf by simp
  show ?case
    unfolding cacheAll_snoc ih cacheSearchResults_room [OF len new]
    by (cases e) (simp add: entryOf_def)
qed

lemma cacheSearchResults_full:
  assumes "length (x # c) = CACHE_SIZE" and "fst x \<noteq> []" and "distinct (map fst (x # c))"
    and "k \<notin> fst ` set (x # c)"
  shows "cacheSearchResults k rs t (x # c) = c @ [(k, \<lparr> cs_results = rs, cs_timestamp = t \<rparr>)]"
proof -
  obtain k0 v0 where x: "x = (k0, v0)" by (cases x)
  from assms(3) x have "filter (\<lambda>(k', v'). k' \<noteq> k0) c = c"
    by (force simp: filter_id_conv)
  with assms x show ?thesis
    by (simp add: cacheSearchResults_def mapSet_def mapDelete_def)
qed

lemma cacheAll_over_capacity:
  assumes "length es = CACHE_SIZE + 1" and "distinct (map (cacheKeyOf \<circ> fst) es)"
  shows "cacheAll es [] = map entryOf (tl es)"
proof -
  from assms(1) obtain init e where es: "es = init @ [e]" and len: "length init = CACHE_SIZE"
    by (cases es rule: rev_cases) auto
  from len obtain x rest where init: "init = x # rest"
    by (cases init) (auto simp: CACHE_SIZE_def)
  from assms(2) es have d: "distinct (map (cacheKeyOf \<circ> fst) init)"
    and new: "cacheKeyOf (fst e) \<notin> (cacheKeyOf \<circ> fst) ` set init"
    by auto
  have "cacheAll init [] = map entryOf init"
    using len d by (simp add: cacheAll_below_capacity)
  then have c: "cacheAll init [] = entryOf x # map entryOf rest" by (simp add: init)
  have keys: "map fst (map entryOf init) = map (cacheKeyOf \<circ> fst) init"
    by (rule keys_entryOf)
  have 1: "length (entryOf x # map entryOf rest) = CACHE_SIZE" using len init by simp
  have 2: "fst (entryOf x) \<noteq> []" by (simp add: fst_entryOf cacheKeyOf_nonempty)
  have "distinct (map fst (map entryOf init))"
    unfolding keys by (rule d)
  then have 3: "distinct (map fst (entryOf x # map entryOf rest))"
    unfolding init by (simp only: list.map)
  have 4: "cacheKeyOf (fst e) \<notin> fst ` set (entryOf x # map entryOf rest)"
    using new keyset_entryOf [of init] unfolding init by simp
  show ?thesis
    unfolding es cacheAll_snoc c cacheSearchResults_full [OF 1 2 3 4]
    by (cases e) (simp add: init entryOf_def)
qed

lemma getCached_hit:
  "mapGet c k = Some cached \<Longrightarrow> now - cs_timestamp cached < CACHE_TTL \<Longrightarrow>
   fst (getCachedSearchResults k now c) = Some (cs_results cached)"
  by (simp add: getCachedSearchResults_def)

lemma getCached_absent:
  "mapGet c k = None \<Longrightarrow> fst (getCachedSearchResults k now c) = None"
  by (simp add: getCachedSearchResults_def)

lemma getCached_stale:
  "mapGet c k = Some cached \<Longrightarrow> now - cs_timestamp cached \<ge> CACHE_TTL \<Longrightarrow>
   fst (getCachedSearchResults k now c) = None"
  by (simp add: getCachedSearchResults_def)

lemma mapGet_entryOf:
  assumes "distinct (map (cacheKeyOf \<circ> fst) es)" and "(sq, rs, t) \<in> set es"
  shows "mapGet (map entryOf es) (cacheKeyOf sq) = Some \<lparr> cs_results = rs, cs_timestamp = t \<rparr>"
proof -
  from assms(1) have "distinct (map fst (map entryOf es))"
    by (simp only: keys_entryOf)
  moreover from assms(2)
  have "(cacheKeyOf sq, \<lparr> cs_results = rs, cs_timestamp = t \<rparr>) \<in> set (map entryOf es)"
    by (force simp: entryOf_def)
  ultimately show ?thesis
    unfolding mapGet_def by (rule map_of_is_SomeI)
qed

text \<open>
  C9. Cache eviction. Starting from the empty cache, after caching the results of
  \<open>CACHE_SIZE + 1\<close> queries with distinct keys, all within the time-to-live at
  the time of the lookup: the key cached first is a miss, each of the
  \<open>CACHE_SIZE\<close> keys cached after it returns its results, no other key is a
  hit, and the cache holds \<open>CACHE_SIZE\<close> entries. And in any cache, an entry
  whose age has reached the time-to-live is a miss although it is present.
\<close>

theorem cache_eviction:
  assumes "length entries = CACHE_SIZE + 1"
    and "distinct (map (cacheKeyOf \<circ> fst) entries)"
    and "\<forall>(sq, results, t) \<in> set entries. now - t < CACHE_TTL"
  shows "fst (getCachedSearchResults (cacheKeyOf (fst (hd entries))) now (cacheAll entries []))
           = None
    \<and> (\<forall>(sq, results, t) \<in> set (tl entries).
          fst (getCachedSearchResults (cacheKeyOf sq) now (cacheAll entries [])) = Some results)
    \<and> (\<forall>cacheKey. fst (getCachedSearchResults cacheKey now (cacheAll entries [])) \<noteq> None
          \<longleftrightarrow> cacheKey \<in> set (map (cacheKeyOf \<circ> fst) (tl entries)))
    \<and> length (cacheAll entries []) = CACHE_SIZE
    \<and> (\<forall>searchCache cacheKey cached later.
          mapGet searchCache cacheKey = Some cached \<and> later - cs_timestamp cached \<ge> CACHE_TTL
          \<longrightarrow> fst (getCachedSearchResults cacheKey later searchCache) = None)"
proof -
  let ?c = "cacheAll entries []"
  from assms(1) obtain e es where entries: "entries = e # es"
    by (cases entries) auto
  have "?c = map entryOf (tl entries)"
    using assms(1,2) by (rule cacheAll_over_capacity)
  then have c: "?c = map entryOf es"
    by (simp add: entries)
  from assms(2) have d: "distinct (map (cacheKeyOf \<circ> fst) es)"
    and old: "cacheKeyOf (fst e) \<notin> set (map (cacheKeyOf \<circ> fst) es)"
    by (simp_all add: entries)
  have recent: "fst (getCachedSearchResults (cacheKeyOf sq) now ?c) = Some rs"
    if "(sq, rs, t) \<in> set es" for sq rs t
  proof -
    from that assms(3) have "now - t < CACHE_TTL" by (auto simp: entries)
    with mapGet_entryOf [OF d that] show ?thesis
      unfolding c by (simp add: getCached_hit)
  qed
  have absent: "fst (getCachedSearchResults k now ?c) = None"
    if "k \<notin> set (map (cacheKeyOf \<circ> fst) es)" for k
  proof -
    from that have "k \<notin> fst ` set (map entryOf es)"
      by (simp only: keyset_entryOf not_False_eq_True)
    then have "mapGet (map entryOf es) k = None"
      by (simp add: mapGet_def map_of_eq_None_iff)
    then show ?thesis
      unfolding c by (simp add: getCached_absent)
  qed
  have present: "fst (getCachedSearchResults k now ?c) \<noteq> None"
    if "k \<in> set (map (cacheKeyOf \<circ> fst) es)" for k
  proof -
    from that obtain sq rs t where "(sq, rs, t) \<in> set es" and "k = cacheKeyOf sq"
      by auto
    with recent show ?thesis by simp
  qed
  have 1: "fst (getCachedSearchResults (cacheKeyOf (fst (hd entries))) now ?c) = None"
    using absent [OF old] by (simp add: entries)
  have 2: "\<forall>(sq, results, t) \<in> set (tl entries).
      fst (getCachedSearchResults (cacheKeyOf sq) now ?c) = Some results"
  proof -
    have "fst (getCachedSearchResults (cacheKeyOf sq) now ?c) = Some rs"
      if "(sq, rs, t) \<in> set (tl entries)" for sq rs t
      using that recent [of sq rs t] by (simp add: entries)
    then show ?thesis by fast
  qed
  have 3: "\<forall>cacheKey. fst (getCachedSearchResults cacheKey now ?c) \<noteq> None
      \<longleftrightarrow> cacheKey \<in> set (map (cacheKeyOf \<circ> fst) (tl entries))"
  proof (intro allI iffI)
    fix cacheKey
    assume "fst (getCachedSearchResults cacheKey now ?c) \<noteq> None"
    with absent [of cacheKey] have "cacheKey \<in> set (map (cacheKeyOf \<circ> fst) es)" by fast
    then show "cacheKey \<in> set (map (cacheKeyOf \<circ> fst) (tl entries))"
      by (simp only: entries list.sel)
  next
    fix cacheKey
    assume "cacheKey \<in> set (map (cacheKeyOf \<circ> fst) (tl entries))"
    then have "cacheKey \<in> set (map (cacheKeyOf \<circ> fst) es)"
      by (simp only: entries list.sel)
    then show "fst (getCachedSearchResults cacheKey now ?c) \<noteq> None"
      by (rule present)
  qed
  have 4: "length ?c = CACHE_SIZE"
  proof -
    from assms(1) have "length es = CACHE_SIZE" by (simp add: entries)
    then show ?thesis unfolding c by simp
  qed
  have 5: "\<forall>searchCache cacheKey cached later.
      mapGet searchCache cacheKey = Some cached \<and> later - cs_timestamp cached \<ge> CACHE_TTL
      \<longrightarrow> fst (getCachedSearchResults cacheKey later (searchCache :: 'b searchCache)) = None"
    by (simp add: getCached_stale)
  show ?thesis
    by (rule conjI [OF 1 conjI [OF 2 conjI [OF 3 conjI [OF 4 5]]]])
qed

text \<open>The theorem at the fifty-one example queries, looked up at time 1000.\<close>

lemma exampleQuery_key_length:
  "length (cacheKeyOf (exampleQuery i)) = 14 + i"
  by (simp add: cacheKeyOf_def getSearchCacheKey_def exampleQuery_def ascii_def)

lemma exampleQuery_keys_inj: "inj_on (\<lambda>i. cacheKeyOf (exampleQuery i)) A"
proof (rule inj_onI)
  fix i j
  assume "cacheKeyOf (exampleQuery i) = cacheKeyOf (exampleQuery j)"
  then have "length (cacheKeyOf (exampleQuery i)) = length (cacheKeyOf (exampleQuery j))"
    by simp
  then show "i = j" by (simp add: exampleQuery_key_length)
qed

lemma exampleEntries_tl:
  "tl exampleEntries = map (\<lambda>i. (exampleQuery i, [i], int i)) [1..<51]"
  by (simp add: exampleEntries_def upt_conv_Cons [of 0])

theorem cache_eviction_witness:
  "length exampleEntries = CACHE_SIZE + 1
   \<and> distinct (map (cacheKeyOf \<circ> fst) exampleEntries)
   \<and> fst (getCachedSearchResults (cacheKeyOf (exampleQuery 0)) 1000
           (cacheAll exampleEntries [])) = None
   \<and> fst (getCachedSearchResults (cacheKeyOf (exampleQuery 1)) 1000
           (cacheAll exampleEntries [])) = Some [1]
   \<and> fst (getCachedSearchResults (cacheKeyOf (exampleQuery 50)) 1000
           (cacheAll exampleEntries [])) = Some [50]
   \<and> length (cacheAll exampleEntries []) = CACHE_SIZE"
proof -
  have h1: "length exampleEntries = CACHE_SIZE + 1"
    by (simp add: exampleEntries_def CACHE_SIZE_def)
  have h2: "distinct (map (cacheKeyOf \<circ> fst) exampleEntries)"
    by (simp add: exampleEntries_def comp_def distinct_map exampleQuery_keys_inj)
  have h3: "\<forall>(sq, results, t) \<in> set exampleEntries. 1000 - t < CACHE_TTL"
    by (auto simp: exampleEntries_def CACHE_TTL_def)
  have hd: "fst (hd exampleEntries) = exampleQuery 0"
    by (simp add: exampleEntries_def upt_conv_Cons [of 0])
  have in1: "(exampleQuery 1, [1], 1) \<in> set (tl exampleEntries)"
    unfolding exampleEntries_tl by (simp add: image_iff)
  have in50: "(exampleQuery 50, [50], 50) \<in> set (tl exampleEntries)"
    unfolding exampleEntries_tl by (simp add: image_iff)
  from cache_eviction [OF h1 h2 h3]
  have a: "fst (getCachedSearchResults (cacheKeyOf (fst (hd exampleEntries))) 1000
        (cacheAll exampleEntries [])) = None"
    and b: "\<forall>(sq, results, t) \<in> set (tl exampleEntries).
        fst (getCachedSearchResults (cacheKeyOf sq) 1000 (cacheAll exampleEntries []))
          = Some results"
    and c: "length (cacheAll exampleEntries []) = CACHE_SIZE"
    by blast+
  from b in1 have b1: "fst (getCachedSearchResults (cacheKeyOf (exampleQuery 1)) 1000
        (cacheAll exampleEntries [])) = Some [1]"
    by fast
  from b in50 have b50: "fst (getCachedSearchResults (cacheKeyOf (exampleQuery 50)) 1000
        (cacheAll exampleEntries [])) = Some [50]"
    by fast
  from a have a0: "fst (getCachedSearchResults (cacheKeyOf (exampleQuery 0)) 1000
        (cacheAll exampleEntries [])) = None"
    by (simp only: hd)
  show ?thesis
    by (rule conjI [OF h1 conjI [OF h2 conjI [OF a0 conjI [OF b1 conjI [OF b50 c]]]]])
qed

section \<open>Store, import and deletion: properties\<close>

lemma andThen_Inr:
  "andThen r f = (Inr u, s') \<longleftrightarrow> (\<exists>s1. r = (Inr (), s1) \<and> f s1 = (Inr u, s'))"
  by (cases r) (auto simp: andThen_def split: sum.splits)

lemma initDB_Inr:
  "initDB fails s = (Inr u, s1) \<Longrightarrow>
   booksStore s1 = booksStore s \<and> volumesStore s1 = volumesStore s \<and> pagesStore s1 = pagesStore s
   \<and> db_books (idb s1) = db_books (idb s) \<and> db_volumes (idb s1) = db_volumes (idb s)
   \<and> db_pages (idb s1) = db_pages (idb s)"
  by (auto simp: initDB_def split: if_splits)

lemma transaction_Inr:
  "transaction fails request change s = (Inr u, s') \<Longrightarrow> s' = s\<lparr>idb := change (idb s)\<rparr>"
  by (auto simp: transaction_def split: if_splits)

lemma storePut_fresh:
  assumes "key r \<notin> key ` set store"
  shows "storePut key r store = store @ [r]"
proof -
  have "\<forall>x \<in> set store. key x \<noteq> key r"
    using assms by (metis imageI)
  then have "filter (\<lambda>x. key x \<noteq> key r) store = store"
    by (rule filter_True)
  then show ?thesis by (simp add: storePut_def)
qed

lemma put_all_fresh:
  "distinct (map key ps) \<Longrightarrow> \<forall>p \<in> set ps. key p \<notin> key ` set base \<Longrightarrow>
   foldl (\<lambda>store p. storePut key p store) base ps = base @ ps"
proof (induction ps arbitrary: base)
  case Nil
  show ?case by simp
next
  case (Cons p ps)
  from Cons.prems have "storePut key p base = base @ [p]"
    by (simp add: storePut_fresh)
  moreover from Cons.prems have d: "distinct (map key ps)" and np: "key p \<notin> key ` set ps"
    by simp_all
  have "\<forall>q \<in> set ps. key q \<notin> key ` set (base @ [p])"
  proof
    fix q assume q: "q \<in> set ps"
    with Cons.prems(2) have "key q \<notin> key ` set base" by simp
    moreover from q np have "key q \<noteq> key p" by (metis imageI)
    ultimately show "key q \<notin> key ` set (base @ [p])" by simp
  qed
  with d have "foldl (\<lambda>store p. storePut key p store) (base @ [p]) ps = (base @ [p]) @ ps"
    by (rule Cons.IH)
  ultimately show ?case by simp
qed

lemma readPages_ofVolume:
  "pg \<in> set (readPages files b vi) \<Longrightarrow> ofVolume b (ve_volume vi) pg"
  by (auto simp: readPages_def ofVolume_def split: option.splits)

lemma distinct_pages_by_number:
  assumes "distinct is" and "\<And>i p. p \<in> set (g i) \<Longrightarrow> pg_page p = i"
    and "\<And>i. length (g i) \<le> 1"
  shows "distinct (map pageKey (concat (map g is)))"
  using assms(1)
proof (induction "is")
  case Nil
  show ?case by simp
next
  case (Cons i "is")
  have one: "distinct (map pageKey (g i))"
    using assms(3) [of i] by (cases "g i") auto
  from Cons have rest: "distinct (map pageKey (concat (map g is)))" and new: "i \<notin> set is"
    by simp_all
  have "pageKey p \<noteq> pageKey q" if "p \<in> set (g i)" "q \<in> set (concat (map g is))" for p q
  proof -
    from that(2) obtain j where j: "j \<in> set is" "q \<in> set (g j)" by auto
    from that(1) have "pg_page p = i" by (rule assms(2))
    moreover from j(2) have "pg_page q = j" by (rule assms(2))
    ultimately have "pg_page p \<noteq> pg_page q" using j(1) new by metis
    then show ?thesis by (auto simp: pageKey_def)
  qed
  then have "set (map pageKey (g i)) \<inter> set (map pageKey (concat (map g is))) = {}"
    by (simp only: set_map) blast
  with one rest have "distinct (map pageKey (g i) @ map pageKey (concat (map g is)))"
    by (simp only: distinct_append simp_thms)
  then show ?case by simp
qed

lemma readPages_keys: "distinct (map pageKey (readPages files b vi))"
  unfolding readPages_def
  by (rule distinct_pages_by_number) (auto split: option.splits)

lemma deletePagesFromDB_Inr:
  assumes "deletePagesFromDB fails b v s = (Inr u, s')"
  shows "pagesStore s' = pagesStore s"
    and "db_pages (idb s') = filter (\<lambda>pg. \<not> ofVolume b v pg) (db_pages (idb s))"
proof -
  from assms obtain s1 where i: "initDB fails s = (Inr (), s1)"
    and t: "transaction fails (DeletePagesOfVolume b v)
          (\<lambda>d. d\<lparr>db_pages := filter (\<lambda>pg. \<not> (pg_bookId pg = b \<and> pg_volume pg = v)) (db_pages d)\<rparr>) s1
        = (Inr u, s')"
    unfolding deletePagesFromDB_def andThen_Inr by blast
  from transaction_Inr [OF t] initDB_Inr [OF i]
  show "pagesStore s' = pagesStore s"
    and "db_pages (idb s') = filter (\<lambda>pg. \<not> ofVolume b v pg) (db_pages (idb s))"
    by (simp_all add: ofVolume_def)
qed

lemma savePagesToDB_Inr:
  assumes "savePagesToDB fails ps s = (Inr u, s')"
  shows "pagesStore s' = pagesStore s"
    and "db_pages (idb s') = foldl (\<lambda>store page. storePut pageKey page store) (db_pages (idb s)) ps"
proof -
  have "pagesStore s' = pagesStore s
      \<and> db_pages (idb s') = foldl (\<lambda>store page. storePut pageKey page store) (db_pages (idb s)) ps"
  proof (cases "ps = []")
    case True
    with assms show ?thesis
      by (simp add: savePagesToDB_def)
  next
    case False
    with assms have "andThen (initDB fails s)
        (transaction fails (PutPages ps)
           (\<lambda>d. d\<lparr>db_pages := foldl (\<lambda>store page. storePut pageKey page store) (db_pages d) ps\<rparr>))
        = (Inr u, s')"
      by (simp add: savePagesToDB_def)
    then obtain s1 where i: "initDB fails s = (Inr (), s1)"
      and t: "transaction fails (PutPages ps)
            (\<lambda>d. d\<lparr>db_pages := foldl (\<lambda>store page. storePut pageKey page store) (db_pages d) ps\<rparr>) s1
          = (Inr u, s')"
      unfolding andThen_Inr by blast
    from transaction_Inr [OF t] initDB_Inr [OF i]
    show ?thesis by simp
  qed
  then show "pagesStore s' = pagesStore s"
    and "db_pages (idb s') = foldl (\<lambda>store page. storePut pageKey page store) (db_pages (idb s)) ps"
    by simp_all
qed

lemma saveVolumeToDB_Inr:
  assumes "saveVolumeToDB fails vol s = (Inr u, s')"
  shows "pagesStore s' = pagesStore s" and "db_pages (idb s') = db_pages (idb s)"
    and "volumesStore s' = volumesStore s"
proof -
  from assms obtain s1 where i: "initDB fails s = (Inr (), s1)"
    and t: "transaction fails (PutVolume vol)
          (\<lambda>d. d\<lparr>db_volumes := storePut volumeKey vol (db_volumes d)\<rparr>) s1 = (Inr u, s')"
    unfolding saveVolumeToDB_def andThen_Inr by blast
  from transaction_Inr [OF t] initDB_Inr [OF i]
  show "pagesStore s' = pagesStore s" and "db_pages (idb s') = db_pages (idb s)"
    and "volumesStore s' = volumesStore s"
    by simp_all
qed

lemma saveBookToDB_Inr:
  assumes "saveBookToDB fails book s = (Inr u, s')"
  shows "pagesStore s' = pagesStore s" and "db_pages (idb s') = db_pages (idb s)"
proof -
  from assms obtain s1 where i: "initDB fails s = (Inr (), s1)"
    and t: "transaction fails (PutBook book)
          (\<lambda>d. d\<lparr>db_books := storePut book_id book (db_books d)\<rparr>) s1 = (Inr u, s')"
    unfolding saveBookToDB_def andThen_Inr by blast
  from transaction_Inr [OF t] initDB_Inr [OF i]
  show "pagesStore s' = pagesStore s" and "db_pages (idb s') = db_pages (idb s)"
    by simp_all
qed

lemma put_readPages:
  "foldl (\<lambda>store page. storePut pageKey page store)
     (filter (\<lambda>pg. \<not> ofVolume b (ve_volume vi) pg) base) (readPages files b vi)
   = filter (\<lambda>pg. \<not> ofVolume b (ve_volume vi) pg) base @ readPages files b vi"
proof (rule put_all_fresh [OF readPages_keys])
  show "\<forall>p \<in> set (readPages files b vi).
      pageKey p \<notin> pageKey ` set (filter (\<lambda>pg. \<not> ofVolume b (ve_volume vi) pg) base)"
  proof (intro ballI notI)
    fix p assume p: "p \<in> set (readPages files b vi)"
      and "pageKey p \<in> pageKey ` set (filter (\<lambda>pg. \<not> ofVolume b (ve_volume vi) pg) base)"
    then obtain q where q: "\<not> ofVolume b (ve_volume vi) q" and "pageKey p = pageKey q"
      by auto
    then have "ofVolume b (ve_volume vi) q = ofVolume b (ve_volume vi) p"
      by (simp add: ofVolume_def pageKey_def)
    with q readPages_ofVolume [OF p] show False by simp
  qed
qed

lemma importVolume_unfold:
  "importVolume fails now files b vi s =
     andThen (deletePagesFromDB fails b (ve_volume vi)
        (s\<lparr>pagesStore := filter (\<lambda>pg. \<not> ofVolume b (ve_volume vi) pg) (pagesStore s)
                             @ readPages files b vi,
           volumesStore :=
             filter (\<lambda>v. \<not> (vol_bookId v = b \<and> vol_volume v = ve_volume vi)) (volumesStore s)
               @ [newVolumeOf b now vi]\<rparr>)) (\<lambda>s.
     andThen (savePagesToDB fails (readPages files b vi) s)
             (saveVolumeToDB fails (newVolumeOf b now vi)))"
  by (simp add: importVolume_def Let_def ofVolume_def)

lemma importVolume_replacesPages: "replacesPages files b (importVolume fails now files b)"
  unfolding replacesPages_def
proof (intro allI impI)
  fix vi s s' u
  assume a: "importVolume fails now files b vi s = (Inr u, s')"
  let ?s0 = "s\<lparr>pagesStore := filter (\<lambda>pg. \<not> ofVolume b (ve_volume vi) pg) (pagesStore s)
                             @ readPages files b vi,
           volumesStore :=
             filter (\<lambda>v. \<not> (vol_bookId v = b \<and> vol_volume v = ve_volume vi)) (volumesStore s)
               @ [newVolumeOf b now vi]\<rparr>"
  from a obtain s1 s2 where d: "deletePagesFromDB fails b (ve_volume vi) ?s0 = (Inr (), s1)"
    and p: "savePagesToDB fails (readPages files b vi) s1 = (Inr (), s2)"
    and v: "saveVolumeToDB fails (newVolumeOf b now vi) s2 = (Inr u, s')"
    unfolding importVolume_unfold andThen_Inr by blast
  from deletePagesFromDB_Inr [OF d] savePagesToDB_Inr [OF p] saveVolumeToDB_Inr [OF v]
  show "pagesStore s' = filter (\<lambda>pg. \<not> ofVolume b (ve_volume vi) pg) (pagesStore s)
                          @ readPages files b vi
        \<and> db_pages (idb s') = filter (\<lambda>pg. \<not> ofVolume b (ve_volume vi) pg) (db_pages (idb s))
                          @ readPages files b vi"
    by (simp add: put_readPages)
qed

lemma importVolume_download_unfold:
  "importVolume_download fails now files b vi s =
     andThen (deletePagesFromDB fails b (ve_volume vi)
        (s\<lparr>pagesStore := filter (\<lambda>pg. \<not> ofVolume b (ve_volume vi) pg) (pagesStore s)
                             @ readPages files b vi\<rparr>)) (\<lambda>s.
     andThen (savePagesToDB fails (readPages files b vi) s) (\<lambda>s.
       saveVolumeToDB fails (newVolumeOf b now vi)
         (s\<lparr>volumesStore :=
              filter (\<lambda>v. \<not> (vol_bookId v = b \<and> vol_volume v = ve_volume vi)) (volumesStore s)
                @ [newVolumeOf b now vi]\<rparr>)))"
  by (simp add: importVolume_download_def Let_def ofVolume_def)

lemma importVolume_download_replacesPages:
  "replacesPages files b (importVolume_download fails now files b)"
  unfolding replacesPages_def
proof (intro allI impI)
  fix vi s s' u
  assume a: "importVolume_download fails now files b vi s = (Inr u, s')"
  let ?s0 = "s\<lparr>pagesStore := filter (\<lambda>pg. \<not> ofVolume b (ve_volume vi) pg) (pagesStore s)
                             @ readPages files b vi\<rparr>"
  from a obtain s1 s2 where d: "deletePagesFromDB fails b (ve_volume vi) ?s0 = (Inr (), s1)"
    and p: "savePagesToDB fails (readPages files b vi) s1 = (Inr (), s2)"
    and v: "saveVolumeToDB fails (newVolumeOf b now vi)
        (s2\<lparr>volumesStore :=
           filter (\<lambda>v. \<not> (vol_bookId v = b \<and> vol_volume v = ve_volume vi)) (volumesStore s2)
             @ [newVolumeOf b now vi]\<rparr>) = (Inr u, s')"
    unfolding importVolume_download_unfold andThen_Inr by blast
  from deletePagesFromDB_Inr [OF d] savePagesToDB_Inr [OF p] saveVolumeToDB_Inr [OF v]
  show "pagesStore s' = filter (\<lambda>pg. \<not> ofVolume b (ve_volume vi) pg) (pagesStore s)
                          @ readPages files b vi
        \<and> db_pages (idb s') = filter (\<lambda>pg. \<not> ofVolume b (ve_volume vi) pg) (db_pages (idb s))
                          @ readPages files b vi"
    by (simp add: put_readPages)
qed

lemma andThen_assoc: "andThen (andThen r f) g = andThen r (\<lambda>s. andThen (f s) g)"
  by (cases r) (auto simp: andThen_def split: sum.splits)

lemma andThen_return: "andThen (Inr (), s) f = f s"
  by (simp add: andThen_def)

lemma forEachVolume_append:
  "forEachVolume step (xs @ ys) s = andThen (forEachVolume step xs s) (forEachVolume step ys)"
proof (induction xs arbitrary: s)
  case Nil
  show ?case by (simp add: andThen_return)
next
  case (Cons x xs)
  have "forEachVolume step (xs @ ys)
      = (\<lambda>s. andThen (forEachVolume step xs s) (forEachVolume step ys))"
    by (rule ext) (rule Cons.IH)
  then show ?case by (simp add: andThen_assoc)
qed

lemma filter_ofVolume_round:
  assumes "ve_volume e \<noteq> v"
  shows "filter (ofVolume b v) (filter (\<lambda>pg. \<not> ofVolume b (ve_volume e) pg) old @ readPages files b e)
     = filter (ofVolume b v) old"
proof -
  have "filter (ofVolume b v) (readPages files b e) = []"
    using assms readPages_ofVolume [of _ files b e]
    by (auto simp: filter_empty_conv ofVolume_def)
  moreover have "filter (ofVolume b v) (filter (\<lambda>pg. \<not> ofVolume b (ve_volume e) pg) old)
      = filter (ofVolume b v) old"
    using assms by (auto simp: ofVolume_def intro: filter_cong)
  ultimately show ?thesis by simp
qed

lemma filter_ofVolume_replaced:
  "filter (ofVolume b (ve_volume vi))
     (filter (\<lambda>pg. \<not> ofVolume b (ve_volume vi) pg) old @ readPages files b vi)
   = readPages files b vi"
proof -
  have "filter (ofVolume b (ve_volume vi)) (readPages files b vi) = readPages files b vi"
    using readPages_ofVolume [of _ files b vi] by (simp add: filter_id_conv)
  then show ?thesis by simp
qed

lemma forEachVolume_other:
  assumes "replacesPages files b step"
  shows "forEachVolume step vs s = (Inr u, s') \<Longrightarrow> \<forall>e \<in> set vs. ve_volume e \<noteq> v \<Longrightarrow>
     filter (ofVolume b v) (pagesStore s') = filter (ofVolume b v) (pagesStore s)
     \<and> filter (ofVolume b v) (db_pages (idb s')) = filter (ofVolume b v) (db_pages (idb s))"
proof (induction vs arbitrary: s)
  case Nil
  then show ?case by simp
next
  case (Cons e vs)
  from Cons.prems(1) obtain s1 where st: "step e s = (Inr (), s1)"
    and rest: "forEachVolume step vs s1 = (Inr u, s')"
    by (auto simp: andThen_Inr)
  from assms st have p: "pagesStore s1 = filter (\<lambda>pg. \<not> ofVolume b (ve_volume e) pg) (pagesStore s)
        @ readPages files b e"
    and d: "db_pages (idb s1) = filter (\<lambda>pg. \<not> ofVolume b (ve_volume e) pg) (db_pages (idb s))
        @ readPages files b e"
    unfolding replacesPages_def by blast+
  from Cons.prems(2) have ne: "ve_volume e \<noteq> v" and others: "\<forall>e \<in> set vs. ve_volume e \<noteq> v"
    by simp_all
  have p1: "filter (ofVolume b v) (pagesStore s1) = filter (ofVolume b v) (pagesStore s)"
    unfolding p by (rule filter_ofVolume_round [OF ne])
  have d1: "filter (ofVolume b v) (db_pages (idb s1)) = filter (ofVolume b v) (db_pages (idb s))"
    unfolding d by (rule filter_ofVolume_round [OF ne])
  from Cons.IH [OF rest others] show ?case
    by (simp only: p1 d1)
qed

lemma forEachVolume_last:
  assumes "replacesPages files b step"
    and "forEachVolume step (before @ vi # after) s = (Inr u, s')"
    and "\<forall>e \<in> set after. ve_volume e \<noteq> ve_volume vi"
  shows "filter (ofVolume b (ve_volume vi)) (pagesStore s') = readPages files b vi
     \<and> filter (ofVolume b (ve_volume vi)) (db_pages (idb s')) = readPages files b vi"
proof -
  from assms(2) obtain s1 s2 where "forEachVolume step before s = (Inr (), s1)"
    and st: "step vi s1 = (Inr (), s2)"
    and rest: "forEachVolume step after s2 = (Inr u, s')"
    by (auto simp: forEachVolume_append andThen_Inr)
  from assms(1) st have p: "pagesStore s2 = filter (\<lambda>pg. \<not> ofVolume b (ve_volume vi) pg) (pagesStore s1)
        @ readPages files b vi"
    and d: "db_pages (idb s2) = filter (\<lambda>pg. \<not> ofVolume b (ve_volume vi) pg) (db_pages (idb s1))
        @ readPages files b vi"
    unfolding replacesPages_def by blast+
  have p1: "filter (ofVolume b (ve_volume vi)) (pagesStore s2) = readPages files b vi"
    unfolding p by (rule filter_ofVolume_replaced)
  have d1: "filter (ofVolume b (ve_volume vi)) (db_pages (idb s2)) = readPages files b vi"
    unfolding d by (rule filter_ofVolume_replaced)
  from forEachVolume_other [OF assms(1) rest assms(3)] show ?thesis
    by (simp only: p1 d1)
qed

lemma upsertBook_Inr:
  assumes "upsertBook fails now manifest s = (Inr u, s')"
  shows "pagesStore s' = pagesStore s \<and> db_pages (idb s') = db_pages (idb s)"
proof (cases "find (\<lambda>b. book_id b = mf_id manifest) (booksStore s)")
  case None
  with assms saveBookToDB_Inr show ?thesis
    by (fastforce simp: upsertBook_def Let_def)
next
  case (Some existingBook)
  with assms saveBookToDB_Inr show ?thesis
    by (fastforce simp: upsertBook_def Let_def)
qed

lemma import_loop_then_book:
  assumes "replacesPages files (mf_id manifest) step"
    and "andThen (forEachVolume step (mf_volumes manifest) s) (upsertBook fails now manifest)
           = (Inr u, s')"
    and "mf_volumes manifest = before @ volInfo # after"
    and "\<forall>e \<in> set after. ve_volume e \<noteq> ve_volume volInfo"
  shows "filter (ofVolume (mf_id manifest) (ve_volume volInfo)) (pagesStore s')
           = readPages files (mf_id manifest) volInfo
     \<and> filter (ofVolume (mf_id manifest) (ve_volume volInfo)) (db_pages (idb s'))
           = readPages files (mf_id manifest) volInfo"
proof -
  from assms(2) obtain s1 where
    loop: "forEachVolume step (before @ volInfo # after) s = (Inr (), s1)"
    and book: "upsertBook fails now manifest s1 = (Inr u, s')"
    unfolding andThen_Inr assms(3) by blast
  from upsertBook_Inr [OF book] forEachVolume_last [OF assms(1) loop assms(4)]
  show ?thesis by simp
qed

text \<open>
  C3. Replacing a volume. Let the manifest declare a volume, \<open>volInfo\<close> being
  its last entry for that volume number. After an import that completes
  successfully (from a chosen file, or of a downloaded archive), the pages of
  that book and volume in the mirror are exactly the pages read from the
  archive for that entry, and so are those in the database: no page of an
  earlier import is left.
\<close>

theorem import_replaces_volume:
  assumes "mf_volumes manifest = before @ volInfo # after"
    and "\<forall>e \<in> set after. ve_volume e \<noteq> ve_volume volInfo"
  shows "(handleFileImport fails now (Some (Archive manifest files)) s = (ImportSuccess, s')
          \<longrightarrow> filter (ofVolume (mf_id manifest) (ve_volume volInfo)) (pagesStore s')
                 = readPages files (mf_id manifest) volInfo
              \<and> filter (ofVolume (mf_id manifest) (ve_volume volInfo)) (db_pages (idb s'))
                 = readPages files (mf_id manifest) volInfo)
     \<and> (importDownloaded fails now (Archive manifest files) s = (True, s')
          \<longrightarrow> filter (ofVolume (mf_id manifest) (ve_volume volInfo)) (pagesStore s')
                 = readPages files (mf_id manifest) volInfo
              \<and> filter (ofVolume (mf_id manifest) (ve_volume volInfo)) (db_pages (idb s'))
                 = readPages files (mf_id manifest) volInfo)"
proof (intro conjI impI)
  assume "handleFileImport fails now (Some (Archive manifest files)) s = (ImportSuccess, s')"
  then have "andThen (forEachVolume (importVolume fails now files (mf_id manifest))
        (mf_volumes manifest) s) (upsertBook fails now manifest) = (Inr (), s')"
    by (auto simp: handleFileImport_def split: prod.splits sum.splits)
  from import_loop_then_book [OF importVolume_replacesPages this assms]
  show "filter (ofVolume (mf_id manifest) (ve_volume volInfo)) (pagesStore s')
          = readPages files (mf_id manifest) volInfo"
    and "filter (ofVolume (mf_id manifest) (ve_volume volInfo)) (db_pages (idb s'))
          = readPages files (mf_id manifest) volInfo"
    by simp_all
next
  assume "importDownloaded fails now (Archive manifest files) s = (True, s')"
  then have "andThen (forEachVolume (importVolume_download fails now files (mf_id manifest))
        (mf_volumes manifest) s) (upsertBook fails now manifest) = (Inr (), s')"
    by (auto simp: importDownloaded_def split: prod.splits sum.splits)
  from import_loop_then_book [OF importVolume_download_replacesPages this assms]
  show "filter (ofVolume (mf_id manifest) (ve_volume volInfo)) (pagesStore s')
          = readPages files (mf_id manifest) volInfo"
    and "filter (ofVolume (mf_id manifest) (ve_volume volInfo)) (db_pages (idb s'))
          = readPages files (mf_id manifest) volInfo"
    by simp_all
qed

text \<open>
  The theorem at the scenario of the shrunk volume: two pages of volume 1 before
  the import, one page after it, in the mirror and in the database, on both
  import paths.
\<close>

lemma shrunk_readPages:
  "readPages shrunkFiles (ascii ''b1'') \<lparr> ve_volume = 1, ve_totalPages = 1 \<rparr> = [newPage]"
  by (simp add: readPages_def shrunkFiles_def newPage_def upto.simps)

lemma shrunk_import_succeeds:
  "fst (handleFileImport noFailure 5 (Some (Archive shrunkManifest shrunkFiles)) stateB1)
     = ImportSuccess"
  by (simp add: handleFileImport_def shrunkManifest_def stateB1_def noFailure_def
      importVolume_def andThen_def deletePagesFromDB_def savePagesToDB_def saveVolumeToDB_def
      initDB_def transaction_def upsertBook_def saveBookToDB_def bookB1_def Let_def
      shrunk_readPages [unfolded ascii_def, simplified] ascii_def)

lemma shrunk_download_succeeds:
  "fst (importDownloaded noFailure 5 (Archive shrunkManifest shrunkFiles) stateB1) = True"
  by (simp add: importDownloaded_def shrunkManifest_def stateB1_def noFailure_def
      importVolume_download_def andThen_def deletePagesFromDB_def savePagesToDB_def
      saveVolumeToDB_def initDB_def transaction_def upsertBook_def saveBookToDB_def bookB1_def
      Let_def shrunk_readPages [unfolded ascii_def, simplified] ascii_def)

theorem import_replaces_volume_witness:
  "mf_volumes shrunkManifest = [] @ \<lparr> ve_volume = 1, ve_totalPages = 1 \<rparr> # []
   \<and> length (filter (ofVolume (ascii ''b1'') 1) (pagesStore stateB1)) = 2
   \<and> length (filter (ofVolume (ascii ''b1'') 1) (db_pages (idb stateB1))) = 2
   \<and> fst (handleFileImport noFailure 5 (Some (Archive shrunkManifest shrunkFiles)) stateB1)
       = ImportSuccess
   \<and> filter (ofVolume (ascii ''b1'') 1)
        (pagesStore (snd (handleFileImport noFailure 5
           (Some (Archive shrunkManifest shrunkFiles)) stateB1))) = [newPage]
   \<and> filter (ofVolume (ascii ''b1'') 1)
        (db_pages (idb (snd (handleFileImport noFailure 5
           (Some (Archive shrunkManifest shrunkFiles)) stateB1)))) = [newPage]
   \<and> fst (importDownloaded noFailure 5 (Archive shrunkManifest shrunkFiles) stateB1) = True
   \<and> filter (ofVolume (ascii ''b1'') 1)
        (pagesStore (snd (importDownloaded noFailure 5
           (Archive shrunkManifest shrunkFiles) stateB1))) = [newPage]
   \<and> filter (ofVolume (ascii ''b1'') 1)
        (db_pages (idb (snd (importDownloaded noFailure 5
           (Archive shrunkManifest shrunkFiles) stateB1)))) = [newPage]"
proof -
  let ?vi = "\<lparr> ve_volume = 1, ve_totalPages = 1 \<rparr>"
  let ?file = "handleFileImport noFailure 5 (Some (Archive shrunkManifest shrunkFiles)) stateB1"
  let ?down = "importDownloaded noFailure 5 (Archive shrunkManifest shrunkFiles) stateB1"
  have h1: "mf_volumes shrunkManifest = [] @ ?vi # []"
    by (simp add: shrunkManifest_def)
  have h2: "\<forall>e \<in> set []. ve_volume e \<noteq> ve_volume ?vi"
    by simp
  have id: "mf_id shrunkManifest = ascii ''b1''" and vol: "ve_volume ?vi = 1"
    by (simp_all add: shrunkManifest_def)
  have old: "length (filter (ofVolume (ascii ''b1'') 1) (pagesStore stateB1)) = 2"
    "length (filter (ofVolume (ascii ''b1'') 1) (db_pages (idb stateB1))) = 2"
    by (simp_all add: stateB1_def ofVolume_def oldPage_def)
  have f: "?file = (ImportSuccess, snd ?file)"
    using shrunk_import_succeeds by (metis prod.collapse)
  have d: "?down = (True, snd ?down)"
    using shrunk_download_succeeds by (metis prod.collapse)
  from import_replaces_volume [OF h1 h2, of noFailure 5 shrunkFiles stateB1 "snd ?file"] f
  have 1: "filter (ofVolume (ascii ''b1'') 1) (pagesStore (snd ?file)) = [newPage]"
    and 2: "filter (ofVolume (ascii ''b1'') 1) (db_pages (idb (snd ?file))) = [newPage]"
    unfolding id vol shrunk_readPages by blast+
  from import_replaces_volume [OF h1 h2, of noFailure 5 shrunkFiles stateB1 "snd ?down"] d
  have 3: "filter (ofVolume (ascii ''b1'') 1) (pagesStore (snd ?down)) = [newPage]"
    and 4: "filter (ofVolume (ascii ''b1'') 1) (db_pages (idb (snd ?down))) = [newPage]"
    unfolding id vol shrunk_readPages by blast+
  from h1 old shrunk_import_succeeds 1 2 shrunk_download_succeeds 3 4 show ?thesis
    by (intro conjI)
qed


text \<open>
  An import that fails on a later entry of the manifest keeps what the loop has
  done for the entries before it: with the shrunk volume as the only entry
  read, the import is reported as failed, the pages of the volume are replaced
  in the mirror and in the database, and the book is not touched.
\<close>

lemma malformed_manifest_keeps_leading_volumes:
  "fst (handleFileImport noFailure 5 (Some (MalformedManifest shrunkManifest shrunkFiles)) stateB1)
     = ImportFailed
   \<and> pagesStore (snd (handleFileImport noFailure 5
        (Some (MalformedManifest shrunkManifest shrunkFiles)) stateB1)) = [newPage]
   \<and> db_pages (idb (snd (handleFileImport noFailure 5
        (Some (MalformedManifest shrunkManifest shrunkFiles)) stateB1))) = [newPage]
   \<and> booksStore (snd (handleFileImport noFailure 5
        (Some (MalformedManifest shrunkManifest shrunkFiles)) stateB1)) = booksStore stateB1
   \<and> fst (importDownloaded noFailure 5 (MalformedManifest shrunkManifest shrunkFiles) stateB1)
     = False
   \<and> pagesStore (snd (importDownloaded noFailure 5
        (MalformedManifest shrunkManifest shrunkFiles) stateB1)) = [newPage]
   \<and> db_pages (idb (snd (importDownloaded noFailure 5
        (MalformedManifest shrunkManifest shrunkFiles) stateB1))) = [newPage]"
  by (simp add: handleFileImport_def importDownloaded_def shrunkManifest_def stateB1_def
      noFailure_def importVolume_def importVolume_download_def andThen_def
      deletePagesFromDB_def savePagesToDB_def saveVolumeToDB_def initDB_def transaction_def
      bookB1_def Let_def shrunk_readPages [unfolded ascii_def, simplified] ascii_def
      oldPage_def newPage_def storePut_def pageKey_def volumeKey_def)

lemma initDB_mirror:
  "initDB fails s = (Inr u, s1) \<Longrightarrow>
   booksStore s1 = booksStore s \<and> volumesStore s1 = volumesStore s \<and> pagesStore s1 = pagesStore s"
  by (auto simp: initDB_def split: if_splits)

lemma deleteBookFromDB_Inr:
  assumes "deleteBookFromDB fails bookId s = (Inr u, s')"
  shows "booksStore s' = booksStore s \<and> volumesStore s' = volumesStore s
     \<and> pagesStore s' = pagesStore s
     \<and> db_books (idb s') = filter (\<lambda>b. book_id b \<noteq> bookId) (db_books (idb s))
     \<and> db_volumes (idb s') = filter (\<lambda>v. vol_bookId v \<noteq> bookId) (db_volumes (idb s))
     \<and> db_pages (idb s') = filter (\<lambda>p. pg_bookId p \<noteq> bookId) (db_pages (idb s))"
proof -
  from assms obtain s1 s2 s3 where i: "initDB fails s = (Inr (), s1)"
    and b: "transaction fails (DeleteBookRecord bookId)
          (\<lambda>d. d\<lparr>db_books := filter (\<lambda>b. book_id b \<noteq> bookId) (db_books d)\<rparr>) s1 = (Inr (), s2)"
    and v: "transaction fails (DeleteVolumesOfBook bookId)
          (\<lambda>d. d\<lparr>db_volumes := filter (\<lambda>v. vol_bookId v \<noteq> bookId) (db_volumes d)\<rparr>) s2
        = (Inr (), s3)"
    and p: "transaction fails (DeletePagesOfBook bookId)
          (\<lambda>d. d\<lparr>db_pages := filter (\<lambda>p. pg_bookId p \<noteq> bookId) (db_pages d)\<rparr>) s3 = (Inr u, s')"
    unfolding deleteBookFromDB_def andThen_Inr by blast
  from initDB_Inr [OF i] transaction_Inr [OF b] transaction_Inr [OF v] transaction_Inr [OF p]
  show ?thesis by simp
qed

lemma handleDeleteBook_unfold:
  "handleDeleteBook fails True book s =
     (case andThen
        (deleteBookFromDB fails (book_id book)
          (s\<lparr>booksStore :=
               filter (\<lambda>b. book_id b \<noteq> book_id book \<and> book_id b \<noteq> translationIdOf (book_id book))
                 (booksStore s),
             volumesStore :=
               filter (\<lambda>v. vol_bookId v \<noteq> book_id book
                         \<and> vol_bookId v \<noteq> translationIdOf (book_id book)) (volumesStore s),
             pagesStore :=
               filter (\<lambda>p. pg_bookId p \<noteq> book_id book
                         \<and> pg_bookId p \<noteq> translationIdOf (book_id book)) (pagesStore s)\<rparr>))
        (deleteBookFromDB fails (translationIdOf (book_id book))) of
        (Inl e, s) \<Rightarrow> (DeleteFailed e, s)
      | (Inr u, s) \<Rightarrow> (Deleted, s))"
  by (simp add: handleDeleteBook_def Let_def)

text \<open>
  C4. Cascade delete. After the deletion of a book has been confirmed and has
  completed, neither the mirror nor the database holds a book, a volume or a
  page whose book id is the id of the book or the id of its translation (the id
  with \<open>_en\<close> appended).
\<close>

theorem delete_book_cascades:
  assumes "handleDeleteBook fails True book s = (Deleted, s')"
  shows
    "filter (\<lambda>b. book_id b = book_id book \<or> book_id b = translationIdOf (book_id book))
       (booksStore s') = []
     \<and> filter (\<lambda>v. vol_bookId v = book_id book \<or> vol_bookId v = translationIdOf (book_id book))
       (volumesStore s') = []
     \<and> filter (\<lambda>p. pg_bookId p = book_id book \<or> pg_bookId p = translationIdOf (book_id book))
       (pagesStore s') = []
     \<and> filter (\<lambda>b. book_id b = book_id book \<or> book_id b = translationIdOf (book_id book))
       (db_books (idb s')) = []
     \<and> filter (\<lambda>v. vol_bookId v = book_id book \<or> vol_bookId v = translationIdOf (book_id book))
       (db_volumes (idb s')) = []
     \<and> filter (\<lambda>p. pg_bookId p = book_id book \<or> pg_bookId p = translationIdOf (book_id book))
       (db_pages (idb s')) = []"
proof -
  let ?t = "translationIdOf (book_id book)"
  let ?s0 = "s\<lparr>booksStore :=
               filter (\<lambda>b. book_id b \<noteq> book_id book \<and> book_id b \<noteq> ?t) (booksStore s),
             volumesStore :=
               filter (\<lambda>v. vol_bookId v \<noteq> book_id book \<and> vol_bookId v \<noteq> ?t) (volumesStore s),
             pagesStore :=
               filter (\<lambda>p. pg_bookId p \<noteq> book_id book \<and> pg_bookId p \<noteq> ?t) (pagesStore s)\<rparr>"
  from assms have "andThen (deleteBookFromDB fails (book_id book) ?s0)
      (deleteBookFromDB fails ?t) = (Inr (), s')"
    unfolding handleDeleteBook_unfold by (auto split: prod.splits sum.splits)
  then obtain s1 where d1: "deleteBookFromDB fails (book_id book) ?s0 = (Inr (), s1)"
    and d2: "deleteBookFromDB fails ?t s1 = (Inr (), s')"
    unfolding andThen_Inr by blast
  from deleteBookFromDB_Inr [OF d1] deleteBookFromDB_Inr [OF d2]
  have "booksStore s' = filter (\<lambda>b. book_id b \<noteq> book_id book \<and> book_id b \<noteq> ?t) (booksStore s)"
    and "volumesStore s'
      = filter (\<lambda>v. vol_bookId v \<noteq> book_id book \<and> vol_bookId v \<noteq> ?t) (volumesStore s)"
    and "pagesStore s'
      = filter (\<lambda>p. pg_bookId p \<noteq> book_id book \<and> pg_bookId p \<noteq> ?t) (pagesStore s)"
    and "db_books (idb s')
      = filter (\<lambda>b. book_id b \<noteq> ?t) (filter (\<lambda>b. book_id b \<noteq> book_id book) (db_books (idb s)))"
    and "db_volumes (idb s')
      = filter (\<lambda>v. vol_bookId v \<noteq> ?t)
          (filter (\<lambda>v. vol_bookId v \<noteq> book_id book) (db_volumes (idb s)))"
    and "db_pages (idb s')
      = filter (\<lambda>p. pg_bookId p \<noteq> ?t)
          (filter (\<lambda>p. pg_bookId p \<noteq> book_id book) (db_pages (idb s)))"
    by simp_all
  then show ?thesis
    by (auto simp: filter_empty_conv)
qed

text \<open>
  The theorem at the example library: deleting b1 removes b1 and b1_en and
  leaves b2.
\<close>

lemma library_delete_succeeds:
  "fst (handleDeleteBook noFailure True (bookOf ''b1'') libraryState) = Deleted"
  by (simp add: handleDeleteBook_def deleteBookFromDB_def andThen_def initDB_def
      transaction_def noFailure_def libraryState_def Let_def)

lemma library_delete_keeps_other:
  "booksStore (snd (handleDeleteBook noFailure True (bookOf ''b1'') libraryState)) = [bookOf ''b2'']
   \<and> db_books (idb (snd (handleDeleteBook noFailure True (bookOf ''b1'') libraryState)))
       = [bookOf ''b2'']"
  by (simp add: handleDeleteBook_def deleteBookFromDB_def andThen_def initDB_def
      transaction_def noFailure_def libraryState_def Let_def translationIdOf_def bookOf_def
      ascii_def)

theorem delete_book_cascades_witness:
  "fst (handleDeleteBook noFailure True (bookOf ''b1'') libraryState) = Deleted
   \<and> filter (\<lambda>b. book_id b = book_id (bookOf ''b1'')
                \<or> book_id b = translationIdOf (book_id (bookOf ''b1'')))
        (booksStore (snd (handleDeleteBook noFailure True (bookOf ''b1'') libraryState))) = []
   \<and> filter (\<lambda>p. pg_bookId p = book_id (bookOf ''b1'')
                \<or> pg_bookId p = translationIdOf (book_id (bookOf ''b1'')))
        (db_pages (idb (snd (handleDeleteBook noFailure True (bookOf ''b1'') libraryState)))) = []
   \<and> booksStore (snd (handleDeleteBook noFailure True (bookOf ''b1'') libraryState))
       = [bookOf ''b2'']
   \<and> db_books (idb (snd (handleDeleteBook noFailure True (bookOf ''b1'') libraryState)))
       = [bookOf ''b2'']"
proof -
  let ?r = "handleDeleteBook noFailure True (bookOf ''b1'') libraryState"
  have h: "?r = (Deleted, snd ?r)"
    using library_delete_succeeds by (metis prod.collapse)
  from delete_book_cascades [OF h] library_delete_succeeds library_delete_keeps_other
  show ?thesis by blast
qed

text \<open>
  C8 (as amended). The startup load passes a storage error on to its caller
  only when opening the database fails, and then leaves the mirror as it was.
  Otherwise it completes without an error, also when one of the three reads
  fails: the mirror then holds the stores that were read before the failing
  read, and keeps what it held for the failing store and the ones after it.
  When no read fails, the mirror holds the records of all three stores.
\<close>

theorem loadFromDB_outcome:
  "(\<not> db_opened (idb s) \<and> fails OpenDB \<longrightarrow> loadFromDB fails s = (Inl StorageError, s))
   \<and> (db_opened (idb s) \<or> \<not> fails OpenDB \<longrightarrow>
        fst (loadFromDB fails s) = Inr ()
        \<and> booksStore (snd (loadFromDB fails s))
            = (if fails GetAllBooks then booksStore s else getAll book_id (db_books (idb s)))
        \<and> volumesStore (snd (loadFromDB fails s))
            = (if fails GetAllBooks \<or> fails GetAllVolumes then volumesStore s
               else getAll volumeKey (db_volumes (idb s)))
        \<and> pagesStore (snd (loadFromDB fails s))
            = (if fails GetAllBooks \<or> fails GetAllVolumes \<or> fails GetAllPages then pagesStore s
               else getAll pageKey (db_pages (idb s))))"
  by (simp add: loadFromDB_def initDB_def andThen_def Let_def)

text \<open>
  The load does not pass on the error of a failed read: when the read of the
  volumes fails at startup, it completes without an error and leaves the mirror
  with the books and without the volumes and pages that the database holds.
\<close>

theorem loadFromDB_counterexample:
  "volumesReadFails GetAllVolumes
   \<and> fst (loadFromDB volumesReadFails startupState) = Inr ()
   \<and> booksStore (snd (loadFromDB volumesReadFails startupState)) = [bookB1]
   \<and> volumesStore (snd (loadFromDB volumesReadFails startupState)) = []
   \<and> pagesStore (snd (loadFromDB volumesReadFails startupState)) = []
   \<and> db_volumes (idb (snd (loadFromDB volumesReadFails startupState))) = [volumeB1]
   \<and> db_pages (idb (snd (loadFromDB volumesReadFails startupState))) = [oldPage 1, oldPage 2]"
  by (simp add: loadFromDB_def initDB_def andThen_def Let_def volumesReadFails_def
      startupState_def getAll_def)

text \<open>
  The theorem at startup, when opening the database fails and when nothing
  fails.
\<close>

lemma startup_sorted:
  "getAll book_id [bookB1] = [bookB1]"
  "getAll volumeKey [volumeB1] = [volumeB1]"
  "getAll pageKey [oldPage 1, oldPage 2] = [oldPage 1, oldPage 2]"
  by (simp_all add: getAll_def pageKey_def oldPage_def)

theorem loadFromDB_outcome_witness:
  "loadFromDB openFails startupState = (Inl StorageError, startupState)
   \<and> fst (loadFromDB noFailure startupState) = Inr ()
   \<and> booksStore (snd (loadFromDB noFailure startupState)) = [bookB1]
   \<and> volumesStore (snd (loadFromDB noFailure startupState)) = [volumeB1]
   \<and> pagesStore (snd (loadFromDB noFailure startupState)) = [oldPage 1, oldPage 2]"
proof -
  have h1: "\<not> db_opened (idb startupState) \<and> openFails OpenDB"
    by (simp add: startupState_def openFails_def)
  have h2: "db_opened (idb startupState) \<or> \<not> noFailure OpenDB"
    by (simp add: noFailure_def)
  have db: "db_books (idb startupState) = [bookB1]" "db_volumes (idb startupState) = [volumeB1]"
    "db_pages (idb startupState) = [oldPage 1, oldPage 2]"
    by (simp_all add: startupState_def)
  from loadFromDB_outcome [of startupState openFails] h1
  have 1: "loadFromDB openFails startupState = (Inl StorageError, startupState)"
    by blast
  from loadFromDB_outcome [of startupState noFailure] h2
  have 2: "fst (loadFromDB noFailure startupState) = Inr ()
        \<and> booksStore (snd (loadFromDB noFailure startupState)) = [bookB1]
        \<and> volumesStore (snd (loadFromDB noFailure startupState)) = [volumeB1]
        \<and> pagesStore (snd (loadFromDB noFailure startupState)) = [oldPage 1, oldPage 2]"
    by (simp add: noFailure_def db startup_sorted)
  from 1 2 show ?thesis by blast
qed

end
